theory Spec2Isabelle
  imports Main "HOL-Library.Multiset" "HOL-Library.AList"
begin

section \<open>Python values shared by the components\<close>

text \<open>
  The exceptions of \<^verbatim>\<open>outlook_creator.py\<close> that the model has to carry as values.
  \<open>Raised\<close> is an exception of the browser driver, with the text \<^verbatim>\<open>str(e)\<close> gives.
\<close>

datatype py_error = IndexError | KeyError string | ValueError string | Raised string

text \<open>
  The process-wide random source. \<^verbatim>\<open>random\<close> is read as an endless sequence of draws;
  \<open>randbelow n\<close> consumes one draw and returns a number below \<open>n\<close>, as
  \<^verbatim>\<open>Random._randbelow\<close> does. Every number below \<open>n\<close> is the result for some source.
\<close>

type_synonym rng = "nat \<Rightarrow> nat"

definition randbelow :: "nat \<Rightarrow> rng \<Rightarrow> nat \<times> rng" where
  "randbelow n g = (g 0 mod n, \<lambda>i. g (Suc i))"

text \<open>
  \<^verbatim>\<open>random.choice(seq)\<close> is \<^verbatim>\<open>seq[randbelow(len(seq))]\<close>. Python raises IndexError on an
  empty sequence; every call of the program passes one of the non-empty literals below.
\<close>

definition choice :: "'a list \<Rightarrow> rng \<Rightarrow> 'a \<times> rng" where
  "choice seq g = (let (i, g') = randbelow (length seq) g in (seq ! i, g'))"

text \<open>\<^verbatim>\<open>random.randint(a, b)\<close> is \<^verbatim>\<open>a + randbelow(b - a + 1)\<close>.\<close>

definition randint :: "int \<Rightarrow> int \<Rightarrow> rng \<Rightarrow> int \<times> rng" where
  "randint a b g = (let (i, g') = randbelow (nat (b - a + 1)) g in (a + int i, g'))"

text \<open>
  \<^verbatim>\<open>random.shuffle(x)\<close>:
  \<^verbatim>\<open>for i in reversed(range(1, len(x))): j = randbelow(i + 1); x[i], x[j] = x[j], x[i]\<close>.
  \<open>shuffle_from k\<close> runs the iterations \<open>i = k, k - 1, ..., 1\<close>.
\<close>

fun shuffle_from :: "nat \<Rightarrow> 'a list \<Rightarrow> rng \<Rightarrow> 'a list \<times> rng" where
  "shuffle_from 0 x g = (x, g)"
| "shuffle_from (Suc k) x g =
     (let i = Suc k;
          (j, g') = randbelow (i + 1) g
      in shuffle_from k (x[i := x ! j, j := x ! i]) g')"

definition shuffle :: "'a list \<Rightarrow> rng \<Rightarrow> 'a list \<times> rng" where
  "shuffle x g = shuffle_from (length x - 1) x g"

section \<open>Identity synthesizer\<close>

definition ascii_lowercase :: string where
  "ascii_lowercase = ''abcdefghijklmnopqrstuvwxyz''"

definition ascii_uppercase :: string where
  "ascii_uppercase = ''ABCDEFGHIJKLMNOPQRSTUVWXYZ''"

definition digits :: string where
  "digits = ''0123456789''"

definition special :: string where
  "special = ''!@#$%^&*()-_=+''"

text \<open>The generator expression \<^verbatim>\<open>random.choice(all_chars) for _ in range(n)\<close>.\<close>

fun choices :: "nat \<Rightarrow> 'a list \<Rightarrow> rng \<Rightarrow> 'a list \<times> rng" where
  "choices 0 seq g = ([], g)"
| "choices (Suc n) seq g =
     (let (c, g1) = choice seq g;
          (cs, g2) = choices n seq g1
      in (c # cs, g2))"

text \<open>
  \<^verbatim>\<open>OutlookCreator.generate_random_password(length)\<close>. \<open>length_arg\<close> is a Python int;
  \<^verbatim>\<open>range(remaining_length)\<close> is empty when \<^verbatim>\<open>remaining_length\<close> is zero or negative,
  which is what \<open>nat\<close> gives.
\<close>

definition generate_random_password :: "int \<Rightarrow> rng \<Rightarrow> string \<times> rng" where
  "generate_random_password length_arg g =
     (let (c1, g1) = choice ascii_lowercase g;
          (c2, g2) = choice ascii_uppercase g1;
          (c3, g3) = choice digits g2;
          (c4, g4) = choice special g3;
          password = [c1, c2, c3, c4];
          remaining_length = length_arg - int (length password);
          all_chars = ascii_lowercase @ ascii_uppercase @ digits @ special;
          (more, g5) = choices (nat remaining_length) all_chars g4
      in shuffle (password @ more) g5)"

text \<open>
  \<^verbatim>\<open>OutlookCreator.generate_random_birthday()\<close>; \<open>current_year\<close> is
  \<^verbatim>\<open>datetime.datetime.now().year\<close>. Python's \<^verbatim>\<open>%\<close> with a positive divisor is \<open>mod\<close> on \<open>int\<close>.
\<close>

definition generate_random_birthday :: "int \<Rightarrow> rng \<Rightarrow> (int \<times> int \<times> int) \<times> rng" where
  "generate_random_birthday current_year g =
     (let (year, g1) = randint (current_year - 50) (current_year - 18) g;
          (month, g2) = randint 1 12 g1;
          (day, g3) =
            (if month \<in> set [4, 6, 9, 11] then randint 1 30 g2
             else if month = 2 then
               (if (year mod 4 = 0 \<and> year mod 100 \<noteq> 0) \<or> year mod 400 = 0
                then randint 1 29 g2
                else randint 1 28 g2)
             else randint 1 31 g2)
      in ((year, month, day), g3))"

section \<open>Proxy rotation allocator\<close>

record proxy_manager =
  proxies :: "string list"
  current_index :: nat

text \<open>\<^verbatim>\<open>ProxyManager.__init__(proxies=None)\<close>: \<^verbatim>\<open>self.proxies = proxies or []\<close>.\<close>

definition ProxyManager :: "string list option \<Rightarrow> proxy_manager" where
  "ProxyManager ps =
     \<lparr>proxies = (case ps of None \<Rightarrow> [] | Some xs \<Rightarrow> xs), current_index = 0\<rparr>"

definition add_proxy :: "string \<Rightarrow> proxy_manager \<Rightarrow> proxy_manager" where
  "add_proxy proxy pm =
     (if proxy \<notin> set (proxies pm) then pm\<lparr>proxies := proxies pm @ [proxy]\<rparr> else pm)"

text \<open>
  \<^verbatim>\<open>ProxyManager.get_next_proxy()\<close>. The read \<^verbatim>\<open>self.proxies[self.current_index]\<close>
  raises IndexError when the cursor is past the end of the pool.
\<close>

definition get_next_proxy :: "proxy_manager \<Rightarrow> (py_error + string option) \<times> proxy_manager" where
  "get_next_proxy pm =
     (if proxies pm = [] then (Inr None, pm)
      else if current_index pm < length (proxies pm) then
        (Inr (Some (proxies pm ! current_index pm)),
         pm\<lparr>current_index := (current_index pm + 1) mod length (proxies pm)\<rparr>)
      else (Inl IndexError, pm))"

text \<open>
  \<^verbatim>\<open>ProxyManager.load_from_file(file_path)\<close>. \<open>file\<close> is the list of the file's lines,
  \<open>None\<close> when opening or reading it raises; \<open>strip\<close> is \<^verbatim>\<open>str.strip\<close>.
\<close>

definition load_from_file ::
  "(string \<Rightarrow> string) \<Rightarrow> string list option \<Rightarrow> proxy_manager \<Rightarrow> nat \<times> proxy_manager" where
  "load_from_file strip file pm =
     (case file of
        None \<Rightarrow> (0, pm)
      | Some lines \<Rightarrow>
          (let ps = map strip (filter (\<lambda>line. strip line \<noteq> []) lines)
           in (length ps, pm\<lparr>proxies := ps, current_index := 0\<rparr>)))"

text \<open>\<open>n\<close> sequential calls of \<^verbatim>\<open>get_next_proxy\<close>, with what each returned.\<close>

fun get_next_proxies ::
  "nat \<Rightarrow> proxy_manager \<Rightarrow> (py_error + string option) list \<times> proxy_manager" where
  "get_next_proxies 0 pm = ([], pm)"
| "get_next_proxies (Suc n) pm =
     (let (r, pm1) = get_next_proxy pm;
          (rs, pm2) = get_next_proxies n pm1
      in (r # rs, pm2))"

text \<open>The states an allocator can be in: built by the constructor, changed by its methods.\<close>

inductive allocator_state :: "proxy_manager \<Rightarrow> bool" where
  init: "allocator_state (ProxyManager ps)"
| add: "allocator_state pm \<Longrightarrow> allocator_state (add_proxy proxy pm)"
| next_proxy: "allocator_state pm \<Longrightarrow> allocator_state (snd (get_next_proxy pm))"
| load: "allocator_state pm \<Longrightarrow> allocator_state (snd (load_from_file strip file pm))"

section \<open>Python dictionaries\<close>

text \<open>
  A \<^verbatim>\<open>dict\<close> with string keys, in insertion order. Values are the text \<^verbatim>\<open>str\<close> gives
  (what \<^verbatim>\<open>csv\<close> writes for an int or a float). Item assignment is \<open>AList.update\<close>: it
  replaces the value of a key that is present and appends a new key at the end.
\<close>

type_synonym pydict = "(string \<times> string) list"

definition keys :: "pydict \<Rightarrow> string list" where
  "keys d = map fst d"

text \<open>\<^verbatim>\<open>d.get(k, default)\<close>\<close>

definition dict_get :: "pydict \<Rightarrow> string \<Rightarrow> string \<Rightarrow> string" where
  "dict_get d k dflt = (case map_of d k of None \<Rightarrow> dflt | Some v \<Rightarrow> v)"

text \<open>\<^verbatim>\<open>d[k]\<close>\<close>

definition getitem :: "pydict \<Rightarrow> string \<Rightarrow> py_error + string" where
  "getitem d k = (case map_of d k of None \<Rightarrow> Inl (KeyError k) | Some v \<Rightarrow> Inr v)"

text \<open>\<^verbatim>\<open>d[k] = v\<close>\<close>

definition setitem :: "pydict \<Rightarrow> string \<Rightarrow> string \<Rightarrow> pydict" where
  "setitem d k v = AList.update k v d"

text \<open>\<^verbatim>\<open>dict(zip(ks, vs))\<close>: a key that occurs twice keeps its last value.\<close>

definition dict_zip :: "string list \<Rightarrow> string list \<Rightarrow> pydict" where
  "dict_zip ks vs = fold (\<lambda>(k, v) d. setitem d k v) (zip ks vs) []"

text \<open>\<^verbatim>\<open>str(e)\<close> of the exceptions of the model.\<close>

fun str_error :: "py_error \<Rightarrow> string" where
  "str_error IndexError = ''list index out of range''"
| "str_error (KeyError k) = [CHR 0x27] @ k @ [CHR 0x27]"
| "str_error (ValueError m) = m"
| "str_error (Raised m) = m"

section \<open>Account state store\<close>

text \<open>
  One line of the account file. Every writer of the program
  (\<^verbatim>\<open>ensure_files_exist\<close>, \<^verbatim>\<open>save_account\<close>, \<^verbatim>\<open>update_account\<close>) emits ten cells per
  line, so a line is ten cells; the quoting of the \<^verbatim>\<open>csv\<close> module is not modelled.
\<close>

datatype csv_line =
  Line string string string string string string string string string string

fun cells :: "csv_line \<Rightarrow> string list" where
  "cells (Line c0 c1 c2 c3 c4 c5 c6 c7 c8 c9) = [c0, c1, c2, c3, c4, c5, c6, c7, c8, c9]"

definition fieldnames :: "string list" where
  "fieldnames =
     [''email'', ''password'', ''first_name'', ''last_name'',
      ''birth_year'', ''birth_month'', ''birth_day'',
      ''totp_secret'', ''creation_time'', ''elapsed_time'']"

definition header :: csv_line where
  "header =
     Line ''email'' ''password'' ''first_name'' ''last_name''
       ''birth_year'' ''birth_month'' ''birth_day''
       ''totp_secret'' ''creation_time'' ''elapsed_time''"

text \<open>
  \<^verbatim>\<open>csv.DictReader\<close> over the lines of a file: the first line gives the keys, every
  further line is one dictionary. An empty file gives no rows.
\<close>

fun DictReader :: "csv_line list \<Rightarrow> pydict list" where
  "DictReader [] = []"
| "DictReader (h # rows) = map (\<lambda>r. dict_zip (cells h) (cells r)) rows"

text \<open>
  \<^verbatim>\<open>csv.DictWriter(f, fieldnames)._dict_to_list\<close> with the default
  \<^verbatim>\<open>extrasaction='raise'\<close> and \<^verbatim>\<open>restval=''\<close>: a key that is no field name raises
  ValueError, a missing field is written empty.
\<close>

definition dict_to_list :: "pydict \<Rightarrow> py_error + csv_line" where
  "dict_to_list d =
     (if filter (\<lambda>k. k \<notin> set fieldnames) (keys d) \<noteq> []
      then Inl (ValueError ''dict contains fields not in fieldnames'')
      else Inr (Line (dict_get d ''email'' '''') (dict_get d ''password'' '''')
                  (dict_get d ''first_name'' '''') (dict_get d ''last_name'' '''')
                  (dict_get d ''birth_year'' '''') (dict_get d ''birth_month'' '''')
                  (dict_get d ''birth_day'' '''') (dict_get d ''totp_secret'' '''')
                  (dict_get d ''creation_time'' '''') (dict_get d ''elapsed_time'' '''')))"

text \<open>
  \<^verbatim>\<open>DictWriter.writerows\<close> maps \<^verbatim>\<open>_dict_to_list\<close> lazily over the rows: the lines
  before the first offending dictionary are written, then the exception leaves.
\<close>

fun writerows :: "pydict list \<Rightarrow> csv_line list \<times> py_error option" where
  "writerows [] = ([], None)"
| "writerows (d # ds) =
     (case dict_to_list d of
        Inl e \<Rightarrow> ([], Some e)
      | Inr l \<Rightarrow> (let (ls, e) = writerows ds in (l # ls, e)))"

text \<open>One entry of the TOTP file, and the file: missing, not decodable as JSON, or a list.\<close>

record totp_entry =
  entry_email :: string
  entry_secret :: string
  entry_time :: string

datatype json_file = NoFile | NotJson | Json "totp_entry list"

text \<open>
  The two files of an \<^verbatim>\<open>AccountManager\<close>. \<open>accounts_file = None\<close> is a missing file,
  \<open>Some ls\<close> a file with the lines \<open>ls\<close> (the header line, when there is one, included).
\<close>

record store =
  accounts_file :: "csv_line list option"
  totp_file :: json_file

definition ensure_files_exist :: "store \<Rightarrow> store" where
  "ensure_files_exist st =
     st\<lparr>accounts_file :=
          (case accounts_file st of None \<Rightarrow> Some [header] | Some ls \<Rightarrow> Some ls),
        totp_file :=
          (case totp_file st of NoFile \<Rightarrow> Json [] | f \<Rightarrow> f)\<rparr>"

text \<open>\<^verbatim>\<open>AccountManager.__init__\<close> on the files \<open>st\<close>.\<close>

definition AccountManager :: "store \<Rightarrow> store" where
  "AccountManager st = ensure_files_exist st"

text \<open>
  The \<^verbatim>\<open>try\<close> around \<^verbatim>\<open>json.load\<close>: a missing or undecodable file reads as \<^verbatim>\<open>[]\<close>.
\<close>

fun read_totp :: "json_file \<Rightarrow> totp_entry list" where
  "read_totp (Json es) = es"
| "read_totp NoFile = []"
| "read_totp NotJson = []"

text \<open>
  \<^verbatim>\<open>AccountManager.save_account(account_info)\<close>. \<open>now\<close> is the formatted clock reading
  \<^verbatim>\<open>datetime.datetime.now().strftime(...)\<close>. Opening with mode \<^verbatim>\<open>'a'\<close> creates a missing
  file, without a header line. The result is the exception that leaves the call, if any,
  and the files as the call left them.
\<close>

definition save_account :: "string \<Rightarrow> pydict \<Rightarrow> store \<Rightarrow> py_error option \<times> store" where
  "save_account now account_info st =
     (let line = Line (dict_get account_info ''email'' '''')
                   (dict_get account_info ''password'' '''')
                   (dict_get account_info ''first_name'' '''')
                   (dict_get account_info ''last_name'' '''')
                   (dict_get account_info ''birth_year'' '''')
                   (dict_get account_info ''birth_month'' '''')
                   (dict_get account_info ''birth_day'' '''')
                   (dict_get account_info ''totp_secret'' '''')
                   (dict_get account_info ''creation_time'' '''')
                   (dict_get account_info ''elapsed_time'' '''');
          st1 = st\<lparr>accounts_file :=
                  Some ((case accounts_file st of None \<Rightarrow> [] | Some ls \<Rightarrow> ls) @ [line])\<rparr>
      in case getitem account_info ''email'' of
           Inl e \<Rightarrow> (Some e, st1)
         | Inr email \<Rightarrow>
             if dict_get account_info ''totp_secret'' '''' \<noteq> '''' then
               (let totp_info =
                      \<lparr>entry_email = email,
                       entry_secret = dict_get account_info ''totp_secret'' '''',
                       entry_time = dict_get account_info ''creation_time'' now\<rparr>;
                    totp_data = read_totp (totp_file st1)
                in (None, st1\<lparr>totp_file := Json (totp_data @ [totp_info])\<rparr>))
             else (None, st1))"

text \<open>
  The first loop of \<^verbatim>\<open>update_account\<close>: the first row whose email is the one of
  \<open>account_info\<close> gets the new password, and the new secret when that is not empty; the
  flag is \<^verbatim>\<open>updated\<close>.
\<close>

fun update_rows :: "pydict \<Rightarrow> pydict list \<Rightarrow> py_error + (pydict list \<times> bool)" where
  "update_rows account_info [] = Inr ([], False)"
| "update_rows account_info (account # rest) =
     (case getitem account ''email'' of
        Inl e \<Rightarrow> Inl e
      | Inr row_email \<Rightarrow>
          (case getitem account_info ''email'' of
             Inl e \<Rightarrow> Inl e
           | Inr email \<Rightarrow>
               if row_email = email then
                 (case getitem account_info ''new_password'' of
                    Inl e \<Rightarrow> Inl e
                  | Inr new_password \<Rightarrow>
                      (let account1 = setitem account ''password'' new_password;
                           account2 =
                             (if dict_get account_info ''totp_secret'' '''' \<noteq> ''''
                              then setitem account1 ''totp_secret''
                                     (dict_get account_info ''totp_secret'' '''')
                              else account1)
                       in Inr (account2 # rest, True)))
               else
                 (case update_rows account_info rest of
                    Inl e \<Rightarrow> Inl e
                  | Inr (rest', updated) \<Rightarrow> Inr (account # rest', updated))))"

text \<open>The second loop of \<^verbatim>\<open>update_account\<close>, over the entries of the TOTP file.\<close>

fun update_totp :: "string \<Rightarrow> string \<Rightarrow> string \<Rightarrow> totp_entry list \<Rightarrow> totp_entry list" where
  "update_totp email secret time [] =
     [\<lparr>entry_email = email, entry_secret = secret, entry_time = time\<rparr>]"
| "update_totp email secret time (totp # rest) =
     (if entry_email totp = email
      then totp\<lparr>entry_secret := secret, entry_time := time\<rparr> # rest
      else totp # update_totp email secret time rest)"

text \<open>
  \<^verbatim>\<open>AccountManager.update_account(account_info)\<close>. An exception before the file is
  opened for writing leaves the files as they were; opening with mode \<^verbatim>\<open>'w'\<close> empties
  the file, so an exception of \<^verbatim>\<open>writerows\<close> leaves the header and the lines written
  until then.
\<close>

definition update_account :: "string \<Rightarrow> pydict \<Rightarrow> store \<Rightarrow> py_error option \<times> store" where
  "update_account now account_info st =
     (let accounts = (case accounts_file st of None \<Rightarrow> [] | Some ls \<Rightarrow> DictReader ls)
      in case update_rows account_info accounts of
           Inl e \<Rightarrow> (Some e, st)
         | Inr (accounts1, updated) \<Rightarrow>
             (case getitem account_info ''email'' of
                Inl e \<Rightarrow> (Some e, st)
              | Inr email \<Rightarrow>
                  (case getitem account_info ''new_password'' of
                     Inl e \<Rightarrow> (Some e, st)
                   | Inr new_password \<Rightarrow>
                       (let accounts2 =
                              (if \<not> updated then
                                 accounts1 @
                                 [[(''email'', email),
                                   (''password'', new_password),
                                   (''first_name'', ''''),
                                   (''last_name'', ''''),
                                   (''birth_year'', ''''),
                                   (''birth_month'', ''''),
                                   (''birth_day'', ''''),
                                   (''totp_secret'', dict_get account_info ''totp_secret'' ''''),
                                   (''creation_time'', dict_get account_info ''update_time'' ''''),
                                   (''elapsed_time'', dict_get account_info ''elapsed_time'' '''')]]
                               else accounts1);
                            (written, err) = writerows accounts2;
                            st1 = st\<lparr>accounts_file := Some (header # written)\<rparr>
                        in case err of
                             Some e \<Rightarrow> (Some e, st1)
                           | None \<Rightarrow>
                               if dict_get account_info ''totp_secret'' '''' \<noteq> '''' then
                                 (None,
                                  st1\<lparr>totp_file :=
                                        Json (update_totp email
                                                (dict_get account_info ''totp_secret'' '''')
                                                (dict_get account_info ''update_time'' now)
                                                (read_totp (totp_file st1)))\<rparr>)
                               else (None, st1)))))"

text \<open>
  \<^verbatim>\<open>AccountManager.load_accounts()\<close>: FileNotFoundError is caught and the empty list
  returned.
\<close>

definition load_accounts :: "store \<Rightarrow> pydict list" where
  "load_accounts st = (case accounts_file st of None \<Rightarrow> [] | Some ls \<Rightarrow> DictReader ls)"

section \<open>The create-account job\<close>

definition first_names :: "string list" where
  "first_names =
     [''Alex'', ''Jamie'', ''Jordan'', ''Taylor'', ''Casey'', ''Riley'', ''Avery'',
      ''Quinn'', ''Morgan'', ''Dakota'', ''Reese'', ''Emerson'', ''Finley'', ''Rowan'',
      ''Skyler'', ''Charlie'', ''Blake'', ''River'', ''Sage'', ''Phoenix'']"

definition last_names :: "string list" where
  "last_names =
     [''Smith'', ''Johnson'', ''Williams'', ''Brown'', ''Jones'', ''Garcia'', ''Miller'',
      ''Davis'', ''Rodriguez'', ''Martinez'', ''Hernandez'', ''Lopez'', ''Gonzalez'',
      ''Wilson'', ''Anderson'', ''Thomas'', ''Taylor'', ''Moore'', ''Jackson'', ''Martin'']"

definition words :: "string list" where
  "words =
     [''cool'', ''super'', ''awesome'', ''tech'', ''dev'', ''pro'', ''star'', ''net'',
      ''web'', ''code'', ''data'', ''info'', ''cyber'', ''digital'', ''smart'']"

definition generate_random_name :: "rng \<Rightarrow> (string \<times> string) \<times> rng" where
  "generate_random_name g =
     (let (first_name, g1) = choice first_names g;
          (last_name, g2) = choice last_names g1
      in ((first_name, last_name), g2))"

text \<open>\<^verbatim>\<open>str.lower\<close> on the ASCII letters the name lists are made of.\<close>

definition lower :: "string \<Rightarrow> string" where
  "lower s =
     map (\<lambda>c. let n = (of_char c :: nat) in if 65 \<le> n \<and> n \<le> 90 then char_of (n + 32) else c) s"

text \<open>\<^verbatim>\<open>str\<close> of a Python int: its decimal digits, with a sign when negative.\<close>

fun str_nat :: "nat \<Rightarrow> string" where
  "str_nat n =
     (if n < 10 then [char_of (48 + n)]
      else str_nat (n div 10) @ [char_of (48 + n mod 10)])"

definition str_int :: "int \<Rightarrow> string" where
  "str_int i = (if i < 0 then CHR ''-'' # str_nat (nat (- i)) else str_nat (nat i))"

definition generate_random_email :: "rng \<Rightarrow> string \<times> rng" where
  "generate_random_email g =
     (let (word, g1) = choice words g;
          ((first_name, _), g2) = generate_random_name g1;
          (number, g3) = randint 100 9999 g2;
          name_parts = [word, lower first_name, str_int number];
          (shuffled, g4) = shuffle name_parts g3
      in (concat shuffled, g4))"

text \<open>
  What the world outside the program does during one job: whether the browser starts,
  the random source, the clock (read when \<^verbatim>\<open>current_account\<close> is built, and again by
  \<^verbatim>\<open>save_account\<close>), whether a step of the driver raises, and whether \<^verbatim>\<open>driver.quit()\<close>
  raises. The steps of one phase change nothing the program keeps, so a phase is the
  text of the first exception one of its steps raises, or \<open>None\<close> when all of them
  return.
\<close>

record job_env =
  driver_start :: "string option"
  random_source :: rng
  current_year :: int
  clock :: string
  signup_steps :: "string option"
  totp_steps :: "string option"
  random_base32 :: string
  elapsed :: string
  save_clock :: string
  driver_quit :: "string option"

text \<open>
  \<^verbatim>\<open>OutlookCreator.bind_totp()\<close>: any exception of its steps is caught and the empty
  string returned.
\<close>

definition bind_totp :: "job_env \<Rightarrow> string" where
  "bind_totp env = (case totp_steps env of None \<Rightarrow> random_base32 env | Some e \<Rightarrow> '''')"

text \<open>
  \<^verbatim>\<open>OutlookCreator.create_outlook_account()\<close>. \<^verbatim>\<open>current_account\<close> is assigned before the
  first step of the driver; the handler adds the error text and the elapsed time to it.
\<close>

definition create_outlook_account :: "job_env \<Rightarrow> pydict" where
  "create_outlook_account env =
     (let (email_name, g1) = generate_random_email (random_source env);
          (password, g2) = generate_random_password 12 g1;
          ((first_name, last_name), g3) = generate_random_name g2;
          ((year, month, day), g4) = generate_random_birthday (current_year env) g3;
          current_account =
            [(''email'', email_name @ ''@outlook.com''),
             (''password'', password),
             (''first_name'', first_name),
             (''last_name'', last_name),
             (''birth_year'', str_int year),
             (''birth_month'', str_int month),
             (''birth_day'', str_int day),
             (''totp_secret'', ''''),
             (''creation_time'', clock env)]
      in case signup_steps env of
           Some e \<Rightarrow>
             setitem (setitem current_account ''error'' e) ''elapsed_time'' (elapsed env)
         | None \<Rightarrow>
             (let totp_secret = bind_totp env;
                  account1 = setitem current_account ''totp_secret'' totp_secret
              in setitem account1 ''elapsed_time'' (elapsed env)))"

section \<open>The worker of \<^verbatim>\<open>create_accounts\<close>\<close>

text \<open>
  What the workers share: the files of the store, the allocator, the result queue, and
  the browsers: the proxy of every browser started, and how many times \<^verbatim>\<open>driver.quit()\<close>
  was called.
\<close>

record world =
  files :: store
  allocator :: proxy_manager
  result_queue :: "pydict list"
  started :: "string option list"
  quit :: nat

text \<open>
  The statements of one turn of the loop of \<^verbatim>\<open>worker\<close> that stand inside its
  \<^verbatim>\<open>try\<close>, for one task: the exception that leaves them, if any, and the world as they
  left it. An exception of \<^verbatim>\<open>get_next_proxy\<close> or of the constructor
  \<^verbatim>\<open>OutlookCreator(...)\<close> leaves before the inner \<^verbatim>\<open>try\<close>. Once the constructor has
  returned, \<^verbatim>\<open>creator.close()\<close> runs in the \<^verbatim>\<open>finally\<close> clause on every path, and calls
  \<^verbatim>\<open>driver.quit()\<close>; an exception of that call replaces the one in flight, if any.
\<close>

definition task_body :: "job_env \<Rightarrow> world \<Rightarrow> py_error option \<times> world" where
  "task_body env w =
     (let (next, pm1) = get_next_proxy (allocator w);
          w1 = w\<lparr>allocator := pm1\<rparr>
      in case next of
           Inl e \<Rightarrow> (Some e, w1)
         | Inr proxy \<Rightarrow>
             (case driver_start env of
                Some e \<Rightarrow> (Some (Raised e), w1)
              | None \<Rightarrow>
                  (let w2 = w1\<lparr>started := started w1 @ [proxy]\<rparr>;
                       account_info = create_outlook_account env;
                       (raised, st) =
                         (if ''error'' \<notin> set (keys account_info)
                          then save_account (save_clock env) account_info (files w2)
                          else (None, files w2));
                       w3 = w2\<lparr>files := st\<rparr>;
                       w4 = (case raised of
                               Some e \<Rightarrow> w3
                             | None \<Rightarrow> w3\<lparr>result_queue := result_queue w3 @ [account_info]\<rparr>);
                       w5 = w4\<lparr>quit := quit w4 + 1\<rparr>
                   in case driver_quit env of
                        Some e \<Rightarrow> (Some (Raised e), w5)
                      | None \<Rightarrow> (raised, w5))))"

text \<open>
  One turn of the loop: the handler \<^verbatim>\<open>except Exception as e\<close> puts
  \<^verbatim>\<open>{"error": str(e)}\<close> on the result queue.
\<close>

definition worker_task :: "job_env \<Rightarrow> world \<Rightarrow> world" where
  "worker_task env w =
     (case task_body env w of
        (Some e, w') \<Rightarrow> w'\<lparr>result_queue := result_queue w' @ [[(''error'', str_error e)]]\<rparr>
      | (None, w') \<Rightarrow> w')"



section \<open>Notions used to state the properties\<close>

text \<open>The account file exists and its first line is the header line.\<close>

definition headed :: "store \<Rightarrow> bool" where
  "headed st = (case accounts_file st of Some (h # rows) \<Rightarrow> h = header | _ \<Rightarrow> False)"

text \<open>The emails of a collection of rows, in order.\<close>

definition emails :: "pydict list \<Rightarrow> string list" where
  "emails accounts = map (\<lambda>d. dict_get d ''email'' '''') accounts"

text \<open>The rows of a collection that carry the email \<open>e\<close>.\<close>

definition rows_of :: "string \<Rightarrow> pydict list \<Rightarrow> pydict list" where
  "rows_of e accounts = filter (\<lambda>d. dict_get d ''email'' '''' = e) accounts"

text \<open>
  A call of the store: \<^verbatim>\<open>save_account\<close> or \<^verbatim>\<open>update_account\<close>, with the clock reading
  of the call and its argument. A sequence of calls stops at the first exception.
\<close>

datatype store_call = Save string pydict | Update string pydict

fun run_call :: "store_call \<Rightarrow> store \<Rightarrow> py_error option \<times> store" where
  "run_call (Save now account_info) st = save_account now account_info st"
| "run_call (Update now account_info) st = update_account now account_info st"

fun run_calls :: "store_call list \<Rightarrow> store \<Rightarrow> py_error option \<times> store" where
  "run_calls [] st = (None, st)"
| "run_calls (c # cs) st =
     (case run_call c st of
        (Some e, st') \<Rightarrow> (Some e, st')
      | (None, st') \<Rightarrow> run_calls cs st')"

text \<open>What a call writes: the email, the password and the secret of its argument.\<close>

fun call_email :: "store_call \<Rightarrow> string" where
  "call_email (Save now account_info) = dict_get account_info ''email'' ''''"
| "call_email (Update now account_info) = dict_get account_info ''email'' ''''"

fun call_password :: "store_call \<Rightarrow> string" where
  "call_password (Save now account_info) = dict_get account_info ''password'' ''''"
| "call_password (Update now account_info) = dict_get account_info ''new_password'' ''''"

fun call_totp :: "store_call \<Rightarrow> string" where
  "call_totp (Save now account_info) = dict_get account_info ''totp_secret'' ''''"
| "call_totp (Update now account_info) = dict_get account_info ''totp_secret'' ''''"

text \<open>
  The most recent password written for the email \<open>e\<close> by a sequence of calls, and the
  most recent secret that is not empty; \<open>None\<close> when the sequence wrote none.
\<close>

definition last_password :: "string \<Rightarrow> store_call list \<Rightarrow> string option" where
  "last_password e cs =
     (case filter (\<lambda>c. call_email c = e) cs of
        [] \<Rightarrow> None
      | c # cs' \<Rightarrow> Some (call_password (last (c # cs'))))"

definition last_totp :: "string \<Rightarrow> store_call list \<Rightarrow> string option" where
  "last_totp e cs =
     (case filter (\<lambda>c. call_email c = e \<and> call_totp c \<noteq> '''') cs of
        [] \<Rightarrow> None
      | c # cs' \<Rightarrow> Some (call_totp (last (c # cs'))))"

text \<open>
  No \<^verbatim>\<open>save_account\<close> of the sequence writes an email that is already there: \<open>seen\<close>
  are the emails of the store before the sequence.
\<close>

fun saves_fresh :: "string list \<Rightarrow> store_call list \<Rightarrow> bool" where
  "saves_fresh seen [] = True"
| "saves_fresh seen (Save now account_info # cs) =
     (dict_get account_info ''email'' '''' \<notin> set seen \<and>
      saves_fresh (dict_get account_info ''email'' '''' # seen) cs)"
| "saves_fresh seen (Update now account_info # cs) =
     saves_fresh (dict_get account_info ''email'' '''' # seen) cs"

text \<open>
  What the two calls do to the lines below the header: \<^verbatim>\<open>save_account\<close> appends
  \<open>line_of\<close> its argument; \<^verbatim>\<open>update_account\<close> rewrites the first line with the email,
  or appends the minimal line.
\<close>

definition line_of :: "pydict \<Rightarrow> csv_line" where
  "line_of d =
     Line (dict_get d ''email'' '''') (dict_get d ''password'' '''')
       (dict_get d ''first_name'' '''') (dict_get d ''last_name'' '''')
       (dict_get d ''birth_year'' '''') (dict_get d ''birth_month'' '''')
       (dict_get d ''birth_day'' '''') (dict_get d ''totp_secret'' '''')
       (dict_get d ''creation_time'' '''') (dict_get d ''elapsed_time'' '''')"

text \<open>The dictionary \<^verbatim>\<open>csv.DictReader\<close> makes of a line that stands below the header line.\<close>

definition row_dict :: "csv_line \<Rightarrow> pydict" where
  "row_dict l = dict_zip (cells header) (cells l)"

fun line_email :: "csv_line \<Rightarrow> string" where
  "line_email (Line e p f l y m d t c el) = e"

fun line_password :: "csv_line \<Rightarrow> string" where
  "line_password (Line e p f l y m d t c el) = p"

fun line_totp :: "csv_line \<Rightarrow> string" where
  "line_totp (Line e p f l y m d t c el) = t"

fun set_credentials :: "string \<Rightarrow> string \<Rightarrow> csv_line \<Rightarrow> csv_line" where
  "set_credentials pw totp (Line e p f l y m d t c el) =
     Line e pw f l y m d (if totp \<noteq> '''' then totp else t) c el"

fun upsert_lines ::
  "string \<Rightarrow> string \<Rightarrow> string \<Rightarrow> csv_line \<Rightarrow> csv_line list \<Rightarrow> csv_line list" where
  "upsert_lines e pw totp minimal [] = [minimal]"
| "upsert_lines e pw totp minimal (l # ls) =
     (if line_email l = e then set_credentials pw totp l # ls
      else l # upsert_lines e pw totp minimal ls)"

section \<open>Example data\<close>

text \<open>No file on disk yet, and the store \<^verbatim>\<open>AccountManager()\<close> makes of that.\<close>

definition no_files :: store where
  "no_files = \<lparr>accounts_file = None, totp_file = NoFile\<rparr>"

definition new_store :: store where
  "new_store = AccountManager no_files"

text \<open>A created account without a TOTP secret, and two password changes.\<close>

definition alice :: pydict where
  "alice =
     [(''email'', ''alice@outlook.com''), (''password'', ''pw1''),
      (''first_name'', ''Alex''), (''last_name'', ''Smith''),
      (''birth_year'', ''1990''), (''birth_month'', ''2''), (''birth_day'', ''28''),
      (''totp_secret'', []), (''creation_time'', ''2025-01-01 10:00:00''),
      (''elapsed_time'', ''41.5'')]"

definition alice_change :: pydict where
  "alice_change =
     [(''email'', ''alice@outlook.com''), (''old_password'', ''pw1''),
      (''new_password'', ''X''), (''totp_secret'', []),
      (''update_time'', ''2025-02-01 10:00:00''), (''elapsed_time'', ''30.5'')]"

definition bob_change :: pydict where
  "bob_change =
     [(''email'', ''bob@outlook.com''), (''old_password'', ''pw2''),
      (''new_password'', ''Y''), (''totp_secret'', ''JBSWY3DPEHPK3PXP''),
      (''update_time'', ''2025-02-02 10:00:00''), (''elapsed_time'', ''28.0'')]"

text \<open>
  Three jobs: the steps of \<^verbatim>\<open>bind_totp\<close> time out; a step of the signup raises; the
  driver does not start. And a world with a new store, no proxy and nothing run yet.
\<close>

definition totp_timeout_env :: job_env where
  "totp_timeout_env =
     \<lparr>driver_start = None, random_source = (\<lambda>_. 7), current_year = 2024,
      clock = ''2024-05-01 10:00:00'', signup_steps = None, totp_steps = Some ''timeout'',
      random_base32 = ''JBSWY3DPEHPK3PXP'', elapsed = ''12.5'',
      save_clock = ''2024-05-01 10:00:12'', driver_quit = None\<rparr>"



definition idle_world :: world where
  "idle_world =
     \<lparr>files = new_store, allocator = ProxyManager None, result_queue = [], started = [],
      quit = 0\<rparr>"


section \<open>Properties\<close>

subsection \<open>Properties of the identity synthesizer\<close>


lemma randbelow_less: "0 < n \<Longrightarrow> fst (randbelow n g) < n"
  by (simp add: randbelow_def)

lemma choice_mem: "seq \<noteq> [] \<Longrightarrow> fst (choice seq g) \<in> set seq"
  by (simp add: choice_def randbelow_def split_def)

lemma length_choices: "length (fst (choices n seq g)) = n"
  by (induction n arbitrary: g) (simp_all add: split_def Let_def)

lemma mset_shuffle_from:
  "k < length x \<Longrightarrow> mset (fst (shuffle_from k x g)) = mset x"
proof (induction k arbitrary: x g)
  case 0
  then show ?case by simp
next
  case (Suc k)
  let ?j = "fst (randbelow (Suc k + 1) g)"
  have j: "?j < length x"
    using Suc.prems randbelow_less [of "Suc k + 1" g] by simp
  have "mset (x[Suc k := x ! ?j, ?j := x ! Suc k]) = mset x"
    using Suc.prems j by (simp add: mset_swap)
  moreover have "k < length (x[Suc k := x ! ?j, ?j := x ! Suc k])"
    using Suc.prems by simp
  ultimately show ?case
    using Suc.IH [of "x[Suc k := x ! ?j, ?j := x ! Suc k]"] by (simp add: split_def Let_def)
qed

lemma mset_shuffle: "mset (fst (shuffle x g)) = mset x"
proof (cases x)
  case Nil
  then show ?thesis by (simp add: shuffle_def)
next
  case (Cons a as)
  then show ?thesis by (simp add: shuffle_def mset_shuffle_from)
qed

lemma length_shuffle: "length (fst (shuffle x g)) = length x"
  using mset_shuffle [of x g] by (metis size_mset)

lemma set_shuffle: "set (fst (shuffle x g)) = set x"
  using mset_shuffle [of x g] by (metis set_mset_mset)

text \<open>The characters of a generated password, before the shuffle.\<close>

lemma password_chars:
  "\<exists>l u d s more.
     mset (fst (generate_random_password n g)) = mset ([l, u, d, s] @ more) \<and>
     l \<in> set ascii_lowercase \<and> u \<in> set ascii_uppercase \<and> d \<in> set digits \<and>
     s \<in> set special \<and> length more = nat (n - 4)"
proof -
  have ne: "ascii_lowercase \<noteq> []" "ascii_uppercase \<noteq> []" "digits \<noteq> []" "special \<noteq> []"
    by (simp_all add: ascii_lowercase_def ascii_uppercase_def digits_def special_def)
  obtain l g1 where l: "choice ascii_lowercase g = (l, g1)" by (cases "choice ascii_lowercase g")
  obtain u g2 where u: "choice ascii_uppercase g1 = (u, g2)" by (cases "choice ascii_uppercase g1")
  obtain d g3 where d: "choice digits g2 = (d, g3)" by (cases "choice digits g2")
  obtain s g4 where s: "choice special g3 = (s, g4)" by (cases "choice special g3")
  obtain more g5 where m:
    "choices (nat (n - 4)) (ascii_lowercase @ ascii_uppercase @ digits @ special) g4 = (more, g5)"
    by (cases "choices (nat (n - 4)) (ascii_lowercase @ ascii_uppercase @ digits @ special) g4")
  have gen: "generate_random_password n g = shuffle ([l, u, d, s] @ more) g5"
    by (simp add: generate_random_password_def l u d s m)
  have "l \<in> set ascii_lowercase" using choice_mem [OF ne(1), of g] l by simp
  moreover have "u \<in> set ascii_uppercase" using choice_mem [OF ne(2), of g1] u by simp
  moreover have "d \<in> set digits" using choice_mem [OF ne(3), of g2] d by simp
  moreover have "s \<in> set special" using choice_mem [OF ne(4), of g3] s by simp
  moreover have "length more = nat (n - 4)" using length_choices [of "nat (n - 4)" "ascii_lowercase @ ascii_uppercase @ digits @ special" g4] m by simp
  moreover have "mset (fst (generate_random_password n g)) = mset ([l, u, d, s] @ more)"
    unfolding gen by (rule mset_shuffle)
  ultimately show ?thesis by blast
qed



text \<open>Evaluation of the generators on a concrete random source.\<close>

lemma randbelow_const: "randbelow n (\<lambda>_. c) = (c mod n, \<lambda>_. c)"
  by (simp add: randbelow_def)

lemma shuffle_from_numeral:
  "shuffle_from (numeral k) x g =
     (let (j, g') = randbelow (numeral k + 1) g
      in shuffle_from (pred_numeral k) (x[numeral k := x ! j, j := x ! numeral k]) g')"
  by (simp add: numeral_eq_Suc Let_def)

lemma mod_Suc_Suc_0: "(n::nat) mod Suc (Suc 0) = n mod 2"
  by (simp add: numeral_2_eq_2)

lemma choices_numeral:
  "choices (numeral k) seq g =
     (let (c, g1) = choice seq g; (cs, g2) = choices (pred_numeral k) seq g1 in (c # cs, g2))"
  by (simp add: numeral_eq_Suc)

lemma list_update_numeral: "(a # xs)[numeral k := y] = a # xs[pred_numeral k := y]"
  by (simp add: numeral_eq_Suc)

lemmas password_eval =
  generate_random_password_def choice_def randbelow_const shuffle_def
  ascii_lowercase_def ascii_uppercase_def digits_def special_def
  shuffle_from_numeral mod_Suc_Suc_0 choices_numeral list_update_numeral

text \<open>
  Claim C5. For every requested length of at least 4 and every random source, the
  generated password has exactly the requested length and contains at least one
  character of \<^verbatim>\<open>string.ascii_lowercase\<close>, one of \<^verbatim>\<open>string.ascii_uppercase\<close>, one of
  \<^verbatim>\<open>string.digits\<close> and one of the symbols \<^verbatim>\<open>special\<close>.
\<close>
theorem generate_random_password_classes:
  assumes "4 \<le> n"
  shows "int (length (fst (generate_random_password n g))) = n \<and>
         (\<exists>c \<in> set (fst (generate_random_password n g)). c \<in> set ascii_lowercase) \<and>
         (\<exists>c \<in> set (fst (generate_random_password n g)). c \<in> set ascii_uppercase) \<and>
         (\<exists>c \<in> set (fst (generate_random_password n g)). c \<in> set digits) \<and>
         (\<exists>c \<in> set (fst (generate_random_password n g)). c \<in> set special)"
proof -
  obtain l u d s more where
    m: "mset (fst (generate_random_password n g)) = mset ([l, u, d, s] @ more)" and
    cl: "l \<in> set ascii_lowercase" "u \<in> set ascii_uppercase" "d \<in> set digits" "s \<in> set special" and
    len: "length more = nat (n - 4)"
    using password_chars [of n g] by blast
  have "length (fst (generate_random_password n g)) = length ([l, u, d, s] @ more)"
    using m by (metis size_mset)
  then have "int (length (fst (generate_random_password n g))) = n"
    using len assms by simp
  moreover have "set (fst (generate_random_password n g)) = set ([l, u, d, s] @ more)"
    using m by (metis set_mset_mset)
  ultimately show ?thesis using cl by auto
qed

theorem generate_random_password_classes_witness:
  "(4::int) \<le> 6 \<and>
   fst (generate_random_password 6 (\<lambda>_. 7)) = ''hhh*7H'' \<and>
   int (length (fst (generate_random_password 6 (\<lambda>_. 7)))) = 6 \<and>
   (\<exists>c \<in> set (fst (generate_random_password 6 (\<lambda>_. 7))). c \<in> set ascii_lowercase) \<and>
   (\<exists>c \<in> set (fst (generate_random_password 6 (\<lambda>_. 7))). c \<in> set ascii_uppercase) \<and>
   (\<exists>c \<in> set (fst (generate_random_password 6 (\<lambda>_. 7))). c \<in> set digits) \<and>
   (\<exists>c \<in> set (fst (generate_random_password 6 (\<lambda>_. 7))). c \<in> set special)"
proof -
  have v: "fst (generate_random_password 6 (\<lambda>_. 7)) = ''hhh*7H''"
    by (simp add: password_eval)
  have h: "(4::int) \<le> 6" by simp
  show ?thesis
    using generate_random_password_classes [OF h, of "\<lambda>_. 7"] v h by simp
qed

text \<open>
  Claim C9. For every requested length, negative ones included, the generated password
  has length \<open>max length 4\<close>; when the requested length is below 4 the password has
  exactly four characters, one from each of the four classes.
\<close>
theorem generate_random_password_short:
  "int (length (fst (generate_random_password n g))) = max n 4 \<and>
   (n < 4 \<longrightarrow>
      length (fst (generate_random_password n g)) = 4 \<and>
      (\<exists>l u d s. mset (fst (generate_random_password n g)) = {#l, u, d, s#} \<and>
         l \<in> set ascii_lowercase \<and> u \<in> set ascii_uppercase \<and>
         d \<in> set digits \<and> s \<in> set special))"
proof -
  obtain l u d s more where
    m: "mset (fst (generate_random_password n g)) = mset ([l, u, d, s] @ more)" and
    cl: "l \<in> set ascii_lowercase" "u \<in> set ascii_uppercase" "d \<in> set digits" "s \<in> set special" and
    len: "length more = nat (n - 4)"
    using password_chars [of n g] by blast
  have "length (fst (generate_random_password n g)) = length ([l, u, d, s] @ more)"
    using m by (metis size_mset)
  then have a: "int (length (fst (generate_random_password n g))) = max n 4"
    using len by simp
  have b: "length (fst (generate_random_password n g)) = 4 \<and>
      (\<exists>l u d s. mset (fst (generate_random_password n g)) = {#l, u, d, s#} \<and>
         l \<in> set ascii_lowercase \<and> u \<in> set ascii_uppercase \<and>
         d \<in> set digits \<and> s \<in> set special)" if "n < 4"
  proof -
    have "more = []" using len that by simp
    then have "mset (fst (generate_random_password n g)) = {#l, u, d, s#}"
      using m by (simp add: ac_simps)
    moreover have "length (fst (generate_random_password n g)) = 4"
      using a that by simp
    ultimately show ?thesis using cl by blast
  qed
  show ?thesis using a b by blast
qed

theorem generate_random_password_short_witness:
  "(- 3::int) < 4 \<and>
   fst (generate_random_password (- 3) (\<lambda>_. 7)) = ''h7H*'' \<and>
   int (length (fst (generate_random_password (- 3) (\<lambda>_. 7)))) = max (- 3) 4 \<and>
   length (fst (generate_random_password (- 3) (\<lambda>_. 7))) = 4 \<and>
   (\<exists>l u d s. mset (fst (generate_random_password (- 3) (\<lambda>_. 7))) = {#l, u, d, s#} \<and>
         l \<in> set ascii_lowercase \<and> u \<in> set ascii_uppercase \<and>
         d \<in> set digits \<and> s \<in> set special)"
proof -
  have v: "fst (generate_random_password (- 3) (\<lambda>_. 7)) = ''h7H*''"
    by (simp add: password_eval)
  show ?thesis
    using generate_random_password_short [of "- 3" "\<lambda>_. 7"] v by simp
qed

lemma randint_bounds:
  "a \<le> b \<Longrightarrow> a \<le> fst (randint a b g) \<and> fst (randint a b g) \<le> b"
  using randbelow_less [of "nat (b - a + 1)" g]
  by (simp add: randint_def split_def Let_def)

text \<open>
  Claim C6. Every generated birthdate has its year between \<open>current_year - 50\<close> and
  \<open>current_year - 18\<close>, so the age in years is between 18 and 50; its month is between 1
  and 12; its day is at least 1 and at most 29 in February of a leap year (divisible by
  4 and not by 100, or divisible by 400), 28 in February of any other year, 30 in the
  months 4, 6, 9 and 11, and 31 in the remaining months.
\<close>
theorem generate_random_birthday_bounds:
  assumes "fst (generate_random_birthday cy g) = (y, m, d)"
  shows "cy - 50 \<le> y \<and> y \<le> cy - 18 \<and> 18 \<le> cy - y \<and> cy - y \<le> 50 \<and>
         1 \<le> m \<and> m \<le> 12 \<and> 1 \<le> d \<and>
         (m = 2 \<and> ((4 dvd y \<and> \<not> 100 dvd y) \<or> 400 dvd y) \<longrightarrow> d \<le> 29) \<and>
         (m = 2 \<and> \<not> ((4 dvd y \<and> \<not> 100 dvd y) \<or> 400 dvd y) \<longrightarrow> d \<le> 28) \<and>
         (m \<in> {4, 6, 9, 11} \<longrightarrow> d \<le> 30) \<and>
         (m \<notin> {2, 4, 6, 9, 11} \<longrightarrow> d \<le> 31)"
proof -
  define g1 where "g1 = snd (randint (cy - 50) (cy - 18) g)"
  define g2 where "g2 = snd (randint 1 12 g1)"
  have y: "y = fst (randint (cy - 50) (cy - 18) g)"
    using assms unfolding generate_random_birthday_def by (simp add: split_def Let_def)
  have m: "m = fst (randint 1 12 g1)"
    using assms unfolding generate_random_birthday_def g1_def by (simp add: split_def Let_def)
  have d: "d = fst (if m \<in> set [4, 6, 9, 11] then randint 1 30 g2
             else if m = 2 then
               (if (y mod 4 = 0 \<and> y mod 100 \<noteq> 0) \<or> y mod 400 = 0
                then randint 1 29 g2
                else randint 1 28 g2)
             else randint 1 31 g2)"
    using assms unfolding generate_random_birthday_def m y g1_def g2_def
    by (simp add: split_def Let_def)
  have ybnd: "cy - 50 \<le> y \<and> y \<le> cy - 18"
    unfolding y using randint_bounds [of "cy - 50" "cy - 18" g] by simp
  have mbnd: "1 \<le> m \<and> m \<le> 12"
    unfolding m using randint_bounds [of 1 12 g1] by simp
  have r: "1 \<le> fst (randint 1 b g2) \<and> fst (randint 1 b g2) \<le> b" if "1 \<le> b" for b
    using randint_bounds [of 1 b g2] that by simp
  have d1: "1 \<le> d"
    unfolding d using r [of 28] r [of 29] r [of 30] r [of 31] by simp
  have d29: "d \<le> 29" if "m = 2" "(4 dvd y \<and> \<not> 100 dvd y) \<or> 400 dvd y"
    unfolding d using r [of 29] that by (simp add: dvd_eq_mod_eq_0)
  have d28: "d \<le> 28" if "m = 2" "\<not> ((4 dvd y \<and> \<not> 100 dvd y) \<or> 400 dvd y)"
    unfolding d using r [of 28] that by (auto simp: dvd_eq_mod_eq_0)
  have d30: "d \<le> 30" if "m \<in> {4, 6, 9, 11}"
    unfolding d using r [of 30] that by simp
  have d31: "d \<le> 31" if "m \<notin> {2, 4, 6, 9, 11}"
    unfolding d using r [of 31] that by simp
  show ?thesis using ybnd mbnd d1 d29 d28 d30 d31 by simp
qed

theorem generate_random_birthday_bounds_witness:
  "fst (generate_random_birthday 2042 (\<lambda>i. if i = 0 then 0 else if i = 1 then 1 else 28))
     = (1992, 2, 29) \<and>
   (2042::int) - 50 \<le> 1992 \<and> (1992::int) \<le> 2042 - 18 \<and>
   (4::int) dvd 1992 \<and> \<not> (100::int) dvd 1992 \<and> (29::int) \<le> 29"
proof -
  have v: "fst (generate_random_birthday 2042 (\<lambda>i. if i = 0 then 0 else if i = 1 then 1 else 28))
     = (1992, 2, 29)"
    by (simp add: generate_random_birthday_def randint_def randbelow_def)
  show ?thesis
    using generate_random_birthday_bounds [OF v] v by simp
qed



subsection \<open>Properties of the proxy rotation allocator\<close>

lemma allocator_state_cursor:
  "allocator_state pm \<Longrightarrow> current_index pm = 0 \<or> current_index pm < length (proxies pm)"
proof (induction rule: allocator_state.induct)
  case (init ps)
  then show ?case by (simp add: ProxyManager_def)
next
  case (add pm proxy)
  then show ?case by (auto simp: add_proxy_def)
next
  case (next_proxy pm)
  then show ?case by (auto simp: get_next_proxy_def)
next
  case (load pm strip content)
  then show ?case by (auto simp: load_from_file_def split: option.splits)
qed

lemma allocator_state_in_range:
  "allocator_state pm \<Longrightarrow> proxies pm \<noteq> [] \<Longrightarrow> current_index pm < length (proxies pm)"
  using allocator_state_cursor [of pm] by auto

lemma get_next_proxies_numeral:
  "get_next_proxies (numeral k) pm =
     (let (r, pm1) = get_next_proxy pm; (rs, pm2) = get_next_proxies (pred_numeral k) pm1
      in (r # rs, pm2))"
  by (simp add: numeral_eq_Suc)

text \<open>
  Claim C4. \<^verbatim>\<open>get_next_proxy\<close> returns \<^verbatim>\<open>None\<close> when the pool is empty; in every state
  of the allocator with a non-empty pool it returns the endpoint at the cursor and
  advances the cursor modulo the size of the pool; on a fresh allocator with the pool
  \<open>[a, b, c]\<close> seven calls in a row return \<open>a, b, c, a, b, c, a\<close>.
\<close>
theorem get_next_proxy_round_robin:
  "(proxies pm = [] \<longrightarrow> get_next_proxy pm = (Inr None, pm)) \<and>
   (allocator_state pm \<and> proxies pm \<noteq> [] \<longrightarrow>
      get_next_proxy pm =
        (Inr (Some (proxies pm ! current_index pm)),
         pm\<lparr>current_index := (current_index pm + 1) mod length (proxies pm)\<rparr>)) \<and>
   fst (get_next_proxies 7 (ProxyManager (Some [a, b, c]))) =
     map (\<lambda>p. Inr (Some p)) [a, b, c, a, b, c, a]"
proof -
  have "get_next_proxy pm = (Inr None, pm)" if "proxies pm = []"
    using that by (simp add: get_next_proxy_def)
  moreover have "get_next_proxy pm =
        (Inr (Some (proxies pm ! current_index pm)),
         pm\<lparr>current_index := (current_index pm + 1) mod length (proxies pm)\<rparr>)"
    if "allocator_state pm" "proxies pm \<noteq> []"
    using that allocator_state_in_range [of pm] by (simp add: get_next_proxy_def)
  moreover have "fst (get_next_proxies 7 (ProxyManager (Some [a, b, c]))) =
     map (\<lambda>p. Inr (Some p)) [a, b, c, a, b, c, a]"
    by (simp add: get_next_proxies_numeral ProxyManager_def get_next_proxy_def)
  ultimately show ?thesis by blast
qed

theorem get_next_proxy_round_robin_witness:
  "get_next_proxy (ProxyManager None) = (Inr None, ProxyManager None) \<and>
   allocator_state (ProxyManager (Some [''10.0.0.1:1080'', ''10.0.0.2:1080''])) \<and>
   get_next_proxy (ProxyManager (Some [''10.0.0.1:1080'', ''10.0.0.2:1080''])) =
     (Inr (Some ''10.0.0.1:1080''),
      \<lparr>proxies = [''10.0.0.1:1080'', ''10.0.0.2:1080''], current_index = 1\<rparr>) \<and>
   fst (get_next_proxies 7 (ProxyManager (Some [''a'', ''b'', ''c'']))) =
     [Inr (Some ''a''), Inr (Some ''b''), Inr (Some ''c''), Inr (Some ''a''),
      Inr (Some ''b''), Inr (Some ''c''), Inr (Some ''a'')]"
  using get_next_proxy_round_robin [of "ProxyManager None" "''a''" "''b''" "''c''"]
    get_next_proxy_round_robin
      [of "ProxyManager (Some [''10.0.0.1:1080'', ''10.0.0.2:1080''])" "''a''" "''b''" "''c''"]
    allocator_state.init [of "Some [''10.0.0.1:1080'', ''10.0.0.2:1080'']"]
  by (simp add: ProxyManager_def)

lemma distinct_add_proxy:
  "distinct (proxies pm) \<Longrightarrow> distinct (proxies (add_proxy e pm))"
  by (simp add: add_proxy_def)

lemma distinct_fold_add_proxy:
  "distinct (proxies pm) \<Longrightarrow> distinct (proxies (fold add_proxy es pm))"
  by (induction es arbitrary: pm) (simp_all add: distinct_add_proxy)

text \<open>
  Claim C7, as amended. In every state of the allocator \<^verbatim>\<open>add_proxy\<close> appends an
  endpoint only when the pool does not hold it, so adding an endpoint twice gives the
  same allocator as adding it once; a sequence of \<^verbatim>\<open>add_proxy\<close> calls keeps a pool
  without duplicates free of duplicates, and the pool built by such calls on an
  allocator constructed without a list has none.
\<close>
theorem add_proxy_idempotent:
  "add_proxy e (add_proxy e pm) = add_proxy e pm \<and>
   (e \<in> set (proxies pm) \<longrightarrow> add_proxy e pm = pm) \<and>
   (e \<notin> set (proxies pm) \<longrightarrow> proxies (add_proxy e pm) = proxies pm @ [e]) \<and>
   (distinct (proxies pm) \<longrightarrow> distinct (proxies (fold add_proxy es pm))) \<and>
   distinct (proxies (fold add_proxy es (ProxyManager None)))"
proof -
  have "distinct (proxies (fold add_proxy es (ProxyManager None)))"
    by (rule distinct_fold_add_proxy) (simp add: ProxyManager_def)
  then show ?thesis
    using distinct_fold_add_proxy [of pm es] by (simp add: add_proxy_def)
qed

theorem add_proxy_idempotent_witness:
  "proxies (add_proxy ''h:1'' (ProxyManager (Some [''h:1'', ''h:2'']))) = [''h:1'', ''h:2''] \<and>
   proxies (add_proxy ''h:3'' (ProxyManager (Some [''h:1'', ''h:2''])))
     = [''h:1'', ''h:2'', ''h:3''] \<and>
   add_proxy ''h:3'' (add_proxy ''h:3'' (ProxyManager (Some [''h:1'', ''h:2''])))
     = add_proxy ''h:3'' (ProxyManager (Some [''h:1'', ''h:2''])) \<and>
   distinct (proxies (ProxyManager (Some [''h:1'', ''h:2'']))) \<and>
   distinct (proxies (fold add_proxy [''h:3'', ''h:1'', ''h:3'']
                        (ProxyManager (Some [''h:1'', ''h:2'']))))"
  using add_proxy_idempotent
      [of "''h:3''" "ProxyManager (Some [''h:1'', ''h:2''])" "[''h:3'', ''h:1'', ''h:3'']"]
    add_proxy_idempotent
      [of "''h:1''" "ProxyManager (Some [''h:1'', ''h:2''])" "[''h:3'', ''h:1'', ''h:3'']"]
  by (simp add: ProxyManager_def)

text \<open>
  The claim C7 as first stated, for every allocator state, fails: the constructor takes
  the list it is given as it is (and \<^verbatim>\<open>load_from_file\<close> the lines of the file), so a
  pool can hold an endpoint twice, and \<^verbatim>\<open>add_proxy\<close> never removes one.
\<close>
theorem add_proxy_duplicates_counterexample:
  "allocator_state (ProxyManager (Some [''h:1'', ''h:1''])) \<and>
   proxies (fold add_proxy [''h:2'', ''h:1''] (ProxyManager (Some [''h:1'', ''h:1'']))) =
     [''h:1'', ''h:1'', ''h:2''] \<and>
   \<not> distinct
     (proxies (fold add_proxy [''h:2'', ''h:1''] (ProxyManager (Some [''h:1'', ''h:1'']))))"
  using allocator_state.init [of "Some [''h:1'', ''h:1'']"]
  by (simp add: ProxyManager_def add_proxy_def)


subsection \<open>Properties of the account state store\<close>

lemma row_dict_Line:
  "row_dict (Line e p f l y m d t c el) =
     [(''email'', e), (''password'', p), (''first_name'', f), (''last_name'', l),
      (''birth_year'', y), (''birth_month'', m), (''birth_day'', d),
      (''totp_secret'', t), (''creation_time'', c), (''elapsed_time'', el)]"
  by (simp add: row_dict_def header_def dict_zip_def setitem_def)

lemma DictReader_header: "DictReader (header # ls) = map row_dict ls"
  by (simp add: row_dict_def)

lemma line_of_row_dict: "line_of (row_dict l) = l"
  by (cases l) (simp add: row_dict_Line line_of_def dict_get_def)

lemma dict_to_list_row_dict: "dict_to_list (row_dict l) = Inr l"
  by (cases l) (simp add: row_dict_Line dict_to_list_def dict_get_def keys_def fieldnames_def)

lemma writerows_row_dict: "writerows (map row_dict ls) = (ls, None)"
  by (induction ls) (simp_all add: dict_to_list_row_dict)

lemma getitem_email_row_dict: "getitem (row_dict l) ''email'' = Inr (line_email l)"
  by (cases l) (simp add: row_dict_Line getitem_def)

lemma dict_get_email_row_dict: "dict_get (row_dict l) ''email'' dflt = line_email l"
  by (cases l) (simp add: row_dict_Line dict_get_def)

lemma set_password_row_dict:
  "setitem (row_dict (Line e p f l y m d t c el)) ''password'' pw =
     row_dict (Line e pw f l y m d t c el)"
  by (simp add: row_dict_Line setitem_def)

lemma set_totp_row_dict:
  "setitem (row_dict (Line e p f l y m d t c el)) ''totp_secret'' s =
     row_dict (Line e p f l y m d s c el)"
  by (simp add: row_dict_Line setitem_def)

lemma set_credentials_row_dict:
  "(if totp \<noteq> [] then setitem (setitem (row_dict l) ''password'' pw) ''totp_secret'' totp
    else setitem (row_dict l) ''password'' pw)
   = row_dict (set_credentials pw totp l)"
  by (cases l) (simp add: set_password_row_dict set_totp_row_dict)

lemma update_rows_row_dict:
  assumes "getitem info ''email'' = Inr e" "getitem info ''new_password'' = Inr pw"
  shows "case update_rows info (map row_dict ls) of
           Inl err \<Rightarrow> False
         | Inr (acc, upd) \<Rightarrow>
             (if \<not> upd then acc @ [row_dict minimal] else acc) =
               map row_dict (upsert_lines e pw (dict_get info ''totp_secret'' []) minimal ls)"
proof (induction ls)
  case Nil
  then show ?case by simp
next
  case (Cons l ls)
  show ?case
  proof (cases "line_email l = e")
    case True
    then show ?thesis
      using assms set_credentials_row_dict [of "dict_get info ''totp_secret'' []" l pw]
      by (simp add: getitem_email_row_dict Let_def)
  next
    case False
    then show ?thesis
      using assms Cons.IH
      by (auto simp: getitem_email_row_dict split: sum.splits prod.splits if_splits)
  qed
qed

lemma minimal_row_dict:
  "[(''email'', e), (''password'', p), (''first_name'', ''''), (''last_name'', ''''),
    (''birth_year'', ''''), (''birth_month'', ''''), (''birth_day'', ''''),
    (''totp_secret'', t), (''creation_time'', c), (''elapsed_time'', el)]
   = row_dict (Line e p '''' '''' '''' '''' '''' t c el)"
  by (simp add: row_dict_Line)

text \<open>What \<^verbatim>\<open>update_account\<close> does to a file with the header line.\<close>

lemma update_account_headed:
  assumes "accounts_file st = Some (header # ls)"
    and "getitem info ''email'' = Inr e"
    and "getitem info ''new_password'' = Inr pw"
  shows "update_account now info st =
     (None,
      st\<lparr>accounts_file :=
           Some (header #
             upsert_lines e pw (dict_get info ''totp_secret'' '''')
               (Line e pw '''' '''' '''' '''' '''' (dict_get info ''totp_secret'' '''')
                  (dict_get info ''update_time'' '''') (dict_get info ''elapsed_time'' ''''))
               ls),
         totp_file :=
           (if dict_get info ''totp_secret'' '''' \<noteq> ''''
            then Json (update_totp e (dict_get info ''totp_secret'' '''')
                         (dict_get info ''update_time'' now) (read_totp (totp_file st)))
            else totp_file st)\<rparr>)"
proof -
  let ?minimal = "Line e pw '''' '''' '''' '''' '''' (dict_get info ''totp_secret'' '''')
                  (dict_get info ''update_time'' '''') (dict_get info ''elapsed_time'' '''')"
  obtain acc upd where
    u: "update_rows info (map row_dict ls) = Inr (acc, upd)" and
    r: "(if \<not> upd then acc @ [row_dict ?minimal] else acc) =
          map row_dict (upsert_lines e pw (dict_get info ''totp_secret'' '''') ?minimal ls)"
    using update_rows_row_dict [OF assms(2,3), where ls = ls and minimal = ?minimal]
    by (cases "update_rows info (map row_dict ls)") auto
  show ?thesis
  proof (cases upd)
    case True
    with r have "writerows acc =
        (upsert_lines e pw (dict_get info ''totp_secret'' []) ?minimal ls, None)"
      by (simp add: writerows_row_dict)
    then show ?thesis
      unfolding update_account_def using assms u True
      by (simp del: DictReader.simps add: DictReader_header Let_def)
  next
    case False
    with r have "writerows (acc @ [row_dict ?minimal]) =
        (upsert_lines e pw (dict_get info ''totp_secret'' []) ?minimal ls, None)"
      by (simp add: writerows_row_dict)
    then show ?thesis
      unfolding update_account_def using assms u False
      by (simp del: DictReader.simps add: DictReader_header minimal_row_dict Let_def)
  qed
qed

lemma save_account_lines:
  "accounts_file (snd (save_account now info st)) =
     Some ((case accounts_file st of None \<Rightarrow> [] | Some ls \<Rightarrow> ls) @ [line_of info])"
  by (simp add: save_account_def line_of_def Let_def split: sum.splits)

lemma save_account_headed:
  assumes "accounts_file st = Some (header # ls)"
    and "getitem info ''email'' = Inr e"
  shows "save_account now info st =
     (None,
      st\<lparr>accounts_file := Some (header # ls @ [line_of info]),
         totp_file :=
           (if dict_get info ''totp_secret'' '''' \<noteq> ''''
            then Json (read_totp (totp_file st) @
                   [\<lparr>entry_email = e, entry_secret = dict_get info ''totp_secret'' '''',
                     entry_time = dict_get info ''creation_time'' now\<rparr>])
            else totp_file st)\<rparr>)"
  using assms by (simp add: save_account_def line_of_def Let_def)

lemma headed_iff: "headed st \<longleftrightarrow> (\<exists>ls. accounts_file st = Some (header # ls))"
  by (auto simp: headed_def split: option.splits list.splits)

lemma load_accounts_headed:
  "accounts_file st = Some (header # ls) \<Longrightarrow> load_accounts st = map row_dict ls"
  by (simp del: DictReader.simps add: load_accounts_def DictReader_header)


subsection \<open>The lines below the header\<close>

lemma emails_row_dict: "emails (map row_dict ls) = map line_email ls"
  by (simp add: emails_def dict_get_email_row_dict)

lemma rows_of_row_dict:
  "rows_of e (map row_dict ls) = map row_dict (filter (\<lambda>l. line_email l = e) ls)"
  by (simp add: rows_of_def filter_map o_def dict_get_email_row_dict)

lemma dict_get_password_row_dict: "dict_get (row_dict l) ''password'' dflt = line_password l"
  by (cases l) (simp add: row_dict_Line dict_get_def)

lemma dict_get_totp_row_dict: "dict_get (row_dict l) ''totp_secret'' dflt = line_totp l"
  by (cases l) (simp add: row_dict_Line dict_get_def)

lemma line_email_set_credentials [simp]: "line_email (set_credentials pw t l) = line_email l"
  by (cases l) simp

lemma line_password_set_credentials [simp]: "line_password (set_credentials pw t l) = pw"
  by (cases l) simp

lemma line_totp_set_credentials [simp]:
  "line_totp (set_credentials pw t l) = (if t \<noteq> [] then t else line_totp l)"
  by (cases l) simp

lemma set_credentials_twice [simp]:
  "set_credentials pw t (set_credentials pw t l) = set_credentials pw t l"
  by (cases l) simp

lemma line_of_fields [simp]:
  "line_email (line_of d) = dict_get d ''email'' []"
  "line_password (line_of d) = dict_get d ''password'' []"
  "line_totp (line_of d) = dict_get d ''totp_secret'' []"
  by (simp_all add: line_of_def)

lemma filter_upsert_lines_same:
  "line_email minimal = e \<Longrightarrow>
   filter (\<lambda>l. line_email l = e) (upsert_lines e pw t minimal ls) =
     (case filter (\<lambda>l. line_email l = e) ls of
        [] \<Rightarrow> [minimal]
      | l # rest \<Rightarrow> set_credentials pw t l # rest)"
  by (induction ls) auto

lemma filter_upsert_lines_other:
  "line_email minimal = e \<Longrightarrow> e' \<noteq> e \<Longrightarrow>
   filter (\<lambda>l. line_email l = e') (upsert_lines e pw t minimal ls) =
     filter (\<lambda>l. line_email l = e') ls"
  by (induction ls) auto

lemma upsert_lines_absent:
  "e \<notin> set (map line_email ls) \<Longrightarrow> upsert_lines e pw t minimal ls = ls @ [minimal]"
  by (induction ls) auto

lemma emails_upsert_lines:
  "line_email minimal = e \<Longrightarrow>
   map line_email (upsert_lines e pw t minimal ls) =
     (if e \<in> set (map line_email ls) then map line_email ls else map line_email ls @ [e])"
  by (induction ls) auto

lemma length_upsert_lines:
  "length (upsert_lines e pw t minimal ls) =
     (if e \<in> set (map line_email ls) then length ls else Suc (length ls))"
  by (induction ls) auto

lemma upsert_lines_twice:
  "line_email minimal = e \<Longrightarrow> set_credentials pw t minimal = minimal \<Longrightarrow>
   upsert_lines e pw t minimal (upsert_lines e pw t minimal ls) = upsert_lines e pw t minimal ls"
  by (induction ls) auto

lemma update_totp_twice:
  "update_totp e s t (update_totp e s t es) = update_totp e s t es"
  by (induction es) auto

lemma filter_email_distinct:
  "distinct (map line_email ls) \<Longrightarrow> length (filter (\<lambda>l. line_email l = e) ls) \<le> 1"
proof (induction ls)
  case Nil
  then show ?case by simp
next
  case (Cons a ls)
  show ?case
  proof (cases "line_email a = e")
    case True
    then have "e \<notin> line_email ` set ls" using Cons.prems by simp
    then have "filter (\<lambda>l. line_email l = e) ls = []"
      by (auto simp: filter_empty_conv)
    then show ?thesis using True by simp
  next
    case False
    then show ?thesis using Cons by simp
  qed
qed

lemma filter_email_member:
  "e \<in> set (map line_email ls) \<longleftrightarrow> filter (\<lambda>l. line_email l = e) ls \<noteq> []"
  by (auto simp: filter_empty_conv)


text \<open>
  Claim C8, as amended. \<^verbatim>\<open>load_accounts\<close> returns the empty list when the account file
  is missing; when the file carries the header line it returns one dictionary for every line below
  the header, in the order of the file, each holding the ten cells of its line under
  the ten column names (so the lines can be read back from the result).
\<close>
theorem load_accounts_collection:
  "(accounts_file st = None \<longrightarrow> load_accounts st = []) \<and>
   (accounts_file st = Some (header # ls) \<longrightarrow>
      load_accounts st = map row_dict ls \<and> map line_of (load_accounts st) = ls) \<and>
   row_dict (Line e p f l y m d t c el) =
     [(''email'', e), (''password'', p), (''first_name'', f), (''last_name'', l),
      (''birth_year'', y), (''birth_month'', m), (''birth_day'', d),
      (''totp_secret'', t), (''creation_time'', c), (''elapsed_time'', el)]"
proof -
  have "load_accounts st = []" if "accounts_file st = None"
    using that by (simp add: load_accounts_def)
  moreover have "load_accounts st = map row_dict ls \<and> map line_of (load_accounts st) = ls"
    if "accounts_file st = Some (header # ls)"
    using load_accounts_headed [OF that] by (simp add: o_def line_of_row_dict)
  ultimately show ?thesis using row_dict_Line by blast
qed

theorem load_accounts_collection_witness:
  "load_accounts \<lparr>accounts_file = None, totp_file = NoFile\<rparr> = [] \<and>
   load_accounts
     \<lparr>accounts_file =
        Some [header,
              Line ''a@outlook.com'' ''pw1'' ''Alex'' ''Smith'' ''1990'' ''2'' ''28''
                ''JBSWY3DP'' ''2025-01-01 00:00:00'' ''41.5'',
              Line ''b@outlook.com'' ''pw2'' [] [] [] [] [] [] ''2025-01-02 00:00:00'' []],
      totp_file = Json []\<rparr> =
     [[(''email'', ''a@outlook.com''), (''password'', ''pw1''), (''first_name'', ''Alex''),
       (''last_name'', ''Smith''), (''birth_year'', ''1990''), (''birth_month'', ''2''),
       (''birth_day'', ''28''), (''totp_secret'', ''JBSWY3DP''),
       (''creation_time'', ''2025-01-01 00:00:00''), (''elapsed_time'', ''41.5'')],
      [(''email'', ''b@outlook.com''), (''password'', ''pw2''), (''first_name'', []),
       (''last_name'', []), (''birth_year'', []), (''birth_month'', []),
       (''birth_day'', []), (''totp_secret'', []),
       (''creation_time'', ''2025-01-02 00:00:00''), (''elapsed_time'', [])]]"
  using load_accounts_collection
      [of "\<lparr>accounts_file = None, totp_file = NoFile\<rparr>" "[]"]
    load_accounts_collection
      [of "\<lparr>accounts_file =
        Some [header,
              Line ''a@outlook.com'' ''pw1'' ''Alex'' ''Smith'' ''1990'' ''2'' ''28''
                ''JBSWY3DP'' ''2025-01-01 00:00:00'' ''41.5'',
              Line ''b@outlook.com'' ''pw2'' [] [] [] [] [] [] ''2025-01-02 00:00:00'' []],
      totp_file = Json []\<rparr>"
        "[Line ''a@outlook.com'' ''pw1'' ''Alex'' ''Smith'' ''1990'' ''2'' ''28''
                ''JBSWY3DP'' ''2025-01-01 00:00:00'' ''41.5'',
              Line ''b@outlook.com'' ''pw2'' [] [] [] [] [] [] ''2025-01-02 00:00:00'' []]"]
  by (simp add: row_dict_Line)

lemma twice_saved:
  "run_calls
     [Save ''t0'' [(''email'', ''a@outlook.com''), (''password'', ''pw1'')],
      Save ''t1'' [(''email'', ''a@outlook.com''), (''password'', ''pw1'')]]
     (AccountManager \<lparr>accounts_file = None, totp_file = NoFile\<rparr>) =
   (None,
    \<lparr>accounts_file =
       Some [header,
             Line ''a@outlook.com'' ''pw1'' [] [] [] [] [] [] [] [],
             Line ''a@outlook.com'' ''pw1'' [] [] [] [] [] [] [] []],
     totp_file = Json []\<rparr>)"
  by (simp add: AccountManager_def ensure_files_exist_def save_account_def getitem_def
      dict_get_def)


lemma getitem_dict_get: "getitem d k = Inr v \<Longrightarrow> dict_get d k dflt = v"
  by (simp add: getitem_def dict_get_def split: option.splits)

lemma update_totp_again:
  "update_totp e s t' (update_totp e s t es) = update_totp e s t' es"
  by (induction es) auto

lemma update_account_idempotent:
  assumes "accounts_file st = Some (header # ls)"
    and "getitem c ''email'' = Inr e"
    and "getitem c ''new_password'' = Inr x"
  shows "update_account now' c (snd (update_account now c st)) = update_account now' c st"
    and "accounts_file (snd (update_account now' c st)) =
         accounts_file (snd (update_account now c st))"
proof -
  let ?t = "dict_get c ''totp_secret'' []"
  let ?minimal = "Line e x [] [] [] [] [] ?t
                  (dict_get c ''update_time'' []) (dict_get c ''elapsed_time'' [])"
  let ?st1 = "snd (update_account now c st)"
  have first: "update_account t c st =
     (None,
      st\<lparr>accounts_file := Some (header # upsert_lines e x ?t ?minimal ls),
         totp_file :=
           (if ?t \<noteq> []
            then Json (update_totp e ?t (dict_get c ''update_time'' t) (read_totp (totp_file st)))
            else totp_file st)\<rparr>)" for t
    by (rule update_account_headed [OF assms])
  have hdr1: "accounts_file ?st1 = Some (header # upsert_lines e x ?t ?minimal ls)"
    by (simp add: first)
  have second: "update_account now' c ?st1 =
     (None,
      ?st1\<lparr>accounts_file :=
              Some (header # upsert_lines e x ?t ?minimal (upsert_lines e x ?t ?minimal ls)),
         totp_file :=
           (if ?t \<noteq> []
            then Json (update_totp e ?t (dict_get c ''update_time'' now')
                         (read_totp (totp_file ?st1)))
            else totp_file ?st1)\<rparr>)"
    by (rule update_account_headed [OF hdr1 assms(2,3)])
  have twice: "upsert_lines e x ?t ?minimal (upsert_lines e x ?t ?minimal ls) =
      upsert_lines e x ?t ?minimal ls"
    by (rule upsert_lines_twice) simp_all
  show "update_account now' c (snd (update_account now c st)) = update_account now' c st"
    unfolding second twice unfolding first
    by (simp add: update_totp_again)
  show "accounts_file (snd (update_account now' c st)) =
         accounts_file (snd (update_account now c st))"
    by (simp add: first)
qed

text \<open>
  Claim C3, as amended. On a store whose account file carries the header line:
  \<^verbatim>\<open>save_account\<close> of a record with an email returns and \<^verbatim>\<open>load_accounts\<close> then yields
  the former rows followed by a row with that email; \<^verbatim>\<open>update_account\<close> with an email
  that stands in exactly one row and a new password \<open>x\<close> returns, leaves exactly one row
  for that email, with password \<open>x\<close>, and keeps the number of rows; the same call
  repeated, at whatever reading \<open>now'\<close> of the clock, returns and leaves the account
  collection as the first call left it: the store is then as that call alone leaves it
  at \<open>now'\<close>; \<^verbatim>\<open>update_account\<close> with an email that is absent appends the minimal row.
\<close>
theorem save_update_load_round_trip:
  assumes "headed st"
  shows
   "(getitem r ''email'' = Inr e \<longrightarrow>
       fst (save_account now r st) = None \<and>
       load_accounts (snd (save_account now r st)) = load_accounts st @ [row_dict (line_of r)] \<and>
       dict_get (row_dict (line_of r)) ''email'' [] = e) \<and>
    (getitem c ''email'' = Inr e \<and> getitem c ''new_password'' = Inr x \<and>
     length (rows_of e (load_accounts st)) = 1 \<longrightarrow>
       fst (update_account now c st) = None \<and>
       (\<exists>d. rows_of e (load_accounts (snd (update_account now c st))) = [d] \<and>
            dict_get d ''password'' [] = x) \<and>
       length (load_accounts (snd (update_account now c st))) = length (load_accounts st) \<and>
       fst (update_account now' c (snd (update_account now c st))) = None \<and>
       load_accounts (snd (update_account now' c (snd (update_account now c st)))) =
         load_accounts (snd (update_account now c st)) \<and>
       update_account now' c (snd (update_account now c st)) = update_account now' c st) \<and>
    (getitem c ''email'' = Inr e \<and> getitem c ''new_password'' = Inr x \<and>
     e \<notin> set (emails (load_accounts st)) \<longrightarrow>
       fst (update_account now c st) = None \<and>
       load_accounts (snd (update_account now c st)) =
         load_accounts st @
         [[(''email'', e), (''password'', x), (''first_name'', []), (''last_name'', []),
           (''birth_year'', []), (''birth_month'', []), (''birth_day'', []),
           (''totp_secret'', dict_get c ''totp_secret'' []),
           (''creation_time'', dict_get c ''update_time'' []),
           (''elapsed_time'', dict_get c ''elapsed_time'' [])]])"
proof -
  obtain ls where hdr: "accounts_file st = Some (header # ls)"
    using assms by (auto simp: headed_iff)
  have load: "load_accounts st = map row_dict ls"
    by (rule load_accounts_headed [OF hdr])
  let ?t = "dict_get c ''totp_secret'' []"
  let ?minimal = "Line e x [] [] [] [] [] ?t
                  (dict_get c ''update_time'' []) (dict_get c ''elapsed_time'' [])"
  have save: "fst (save_account now r st) = None \<and>
       load_accounts (snd (save_account now r st)) = load_accounts st @ [row_dict (line_of r)] \<and>
       dict_get (row_dict (line_of r)) ''email'' [] = e"
    if r: "getitem r ''email'' = Inr e"
  proof -
    have "accounts_file (snd (save_account now r st)) = Some (header # (ls @ [line_of r]))"
      by (simp add: save_account_headed [OF hdr r])
    then have "load_accounts (snd (save_account now r st)) = map row_dict (ls @ [line_of r])"
      by (rule load_accounts_headed)
    then show ?thesis
      using load getitem_dict_get [OF r]
      by (simp add: save_account_headed [OF hdr r] dict_get_email_row_dict)
  qed
  have upd: "fst (update_account t c st) = None \<and>
      load_accounts (snd (update_account t c st)) =
        map row_dict (upsert_lines e x ?t ?minimal ls)"
    if k: "getitem c ''email'' = Inr e" "getitem c ''new_password'' = Inr x" for t
  proof -
    have "accounts_file (snd (update_account t c st)) =
        Some (header # upsert_lines e x ?t ?minimal ls)"
      by (simp add: update_account_headed [OF hdr k])
    then have "load_accounts (snd (update_account t c st)) =
        map row_dict (upsert_lines e x ?t ?minimal ls)"
      by (rule load_accounts_headed)
    then show ?thesis by (simp add: update_account_headed [OF hdr k])
  qed
  have present: "fst (update_account now c st) = None \<and>
       (\<exists>d. rows_of e (load_accounts (snd (update_account now c st))) = [d] \<and>
            dict_get d ''password'' [] = x) \<and>
       length (load_accounts (snd (update_account now c st))) = length (load_accounts st) \<and>
       fst (update_account now' c (snd (update_account now c st))) = None \<and>
       load_accounts (snd (update_account now' c (snd (update_account now c st)))) =
         load_accounts (snd (update_account now c st)) \<and>
       update_account now' c (snd (update_account now c st)) = update_account now' c st"
    if k: "getitem c ''email'' = Inr e" "getitem c ''new_password'' = Inr x"
      and one: "length (rows_of e (load_accounts st)) = 1"
  proof -
    have "length (filter (\<lambda>l. line_email l = e) ls) = 1"
      using one by (simp add: load rows_of_row_dict)
    then obtain l0 where l0: "filter (\<lambda>l. line_email l = e) ls = [l0]"
      by (cases "filter (\<lambda>l. line_email l = e) ls") auto
    have mem: "e \<in> set (map line_email ls)"
      using l0 filter_email_member [of e ls] by simp
    have "filter (\<lambda>l. line_email l = e) (upsert_lines e x ?t ?minimal ls) =
        [set_credentials x ?t l0]"
      using filter_upsert_lines_same [of ?minimal e x ?t ls] l0 by simp
    then have "rows_of e (load_accounts (snd (update_account now c st))) =
        [row_dict (set_credentials x ?t l0)]"
      using upd [OF k] by (simp add: rows_of_row_dict)
    moreover have "dict_get (row_dict (set_credentials x ?t l0)) ''password'' [] = x"
      by (simp add: dict_get_password_row_dict)
    moreover have "length (load_accounts (snd (update_account now c st))) =
        length (load_accounts st)"
      using upd [OF k] mem by (simp add: load length_upsert_lines)
    moreover have again:
      "update_account now' c (snd (update_account now c st)) = update_account now' c st"
      by (rule update_account_idempotent(1) [OF hdr k])
    moreover have "fst (update_account now' c (snd (update_account now c st))) = None"
      unfolding again using upd [OF k, of now'] by simp
    moreover have "load_accounts (snd (update_account now' c (snd (update_account now c st)))) =
        load_accounts (snd (update_account now c st))"
      unfolding again using upd [OF k, of now'] upd [OF k, of now] by simp
    ultimately show ?thesis
      using upd [OF k, of now] by blast
  qed
  have absent: "fst (update_account now c st) = None \<and>
       load_accounts (snd (update_account now c st)) =
         load_accounts st @
         [[(''email'', e), (''password'', x), (''first_name'', []), (''last_name'', []),
           (''birth_year'', []), (''birth_month'', []), (''birth_day'', []),
           (''totp_secret'', dict_get c ''totp_secret'' []),
           (''creation_time'', dict_get c ''update_time'' []),
           (''elapsed_time'', dict_get c ''elapsed_time'' [])]]"
    if k: "getitem c ''email'' = Inr e" "getitem c ''new_password'' = Inr x"
      and no: "e \<notin> set (emails (load_accounts st))"
  proof -
    have "e \<notin> set (map line_email ls)"
      using no by (simp add: load emails_row_dict)
    then have "upsert_lines e x ?t ?minimal ls = ls @ [?minimal]"
      by (rule upsert_lines_absent)
    then show ?thesis
      using upd [OF k] by (simp add: load row_dict_Line)
  qed
  show ?thesis using save present absent by blast
qed

subsection \<open>Evaluation on the example data\<close>

lemma new_store_eq: "new_store = \<lparr>accounts_file = Some [header], totp_file = Json []\<rparr>"
  by (simp add: new_store_def no_files_def AccountManager_def ensure_files_exist_def)

lemma line_of_alice:
  "line_of alice =
     Line ''alice@outlook.com'' ''pw1'' ''Alex'' ''Smith'' ''1990'' ''2'' ''28'' []
       ''2025-01-01 10:00:00'' ''41.5''"
  by (simp add: line_of_def alice_def dict_get_def)

lemma getitem_alice: "getitem alice ''email'' = Inr ''alice@outlook.com''"
  by (simp add: getitem_def alice_def)

lemma dict_get_alice_totp: "dict_get alice ''totp_secret'' [] = []"
  by (simp add: dict_get_def alice_def)

lemma save_alice:
  "save_account now alice new_store =
     (None, \<lparr>accounts_file = Some [header, line_of alice], totp_file = Json []\<rparr>)"
  using save_account_headed [of new_store "[]" alice "''alice@outlook.com''" now]
  by (simp add: new_store_eq getitem_alice dict_get_alice_totp)

lemma save_alice_twice:
  "run_calls [Save t0 alice, Save t1 alice] new_store =
     (None,
      \<lparr>accounts_file = Some [header, line_of alice, line_of alice], totp_file = Json []\<rparr>)"
  using save_account_headed
      [of "\<lparr>accounts_file = Some [header, line_of alice], totp_file = Json []\<rparr>"
          "[line_of alice]" alice "''alice@outlook.com''" t1]
  by (simp add: save_alice getitem_alice dict_get_alice_totp)

lemma getitem_alice_change:
  "getitem alice_change ''email'' = Inr ''alice@outlook.com''"
  "getitem alice_change ''new_password'' = Inr ''X''"
  "dict_get alice_change ''totp_secret'' [] = []"
  "dict_get alice_change ''update_time'' [] = ''2025-02-01 10:00:00''"
  "dict_get alice_change ''elapsed_time'' [] = ''30.5''"
  by (simp_all add: getitem_def dict_get_def alice_change_def)

lemma getitem_bob_change:
  "getitem bob_change ''email'' = Inr ''bob@outlook.com''"
  "getitem bob_change ''new_password'' = Inr ''Y''"
  "dict_get bob_change ''totp_secret'' [] = ''JBSWY3DPEHPK3PXP''"
  "dict_get bob_change ''update_time'' dflt = ''2025-02-02 10:00:00''"
  "dict_get bob_change ''elapsed_time'' [] = ''28.0''"
  by (simp_all add: getitem_def dict_get_def bob_change_def)

text \<open>
  The claim C8 as first stated fails on an account file without the header line. The
  constructor leaves an existing empty file as it is, and \<^verbatim>\<open>save_account\<close> opens a
  missing file for appending: in both cases the file then holds the saved line only,
  \<^verbatim>\<open>csv.DictReader\<close> reads that line as the header, and \<^verbatim>\<open>load_accounts\<close> returns no
  row.
\<close>
theorem load_accounts_headerless_counterexample:
  "AccountManager \<lparr>accounts_file = Some [], totp_file = NoFile\<rparr> =
     \<lparr>accounts_file = Some [], totp_file = Json []\<rparr> \<and>
   save_account ''t0'' alice \<lparr>accounts_file = Some [], totp_file = Json []\<rparr> =
     (None, \<lparr>accounts_file = Some [line_of alice], totp_file = Json []\<rparr>) \<and>
   load_accounts \<lparr>accounts_file = Some [line_of alice], totp_file = Json []\<rparr> = [] \<and>
   save_account ''t0'' alice no_files =
     (None, \<lparr>accounts_file = Some [line_of alice], totp_file = NoFile\<rparr>) \<and>
   load_accounts \<lparr>accounts_file = Some [line_of alice], totp_file = NoFile\<rparr> = []"
  by (simp add: AccountManager_def ensure_files_exist_def save_account_def Let_def
      getitem_alice dict_get_alice_totp line_of_def load_accounts_def no_files_def)

text \<open>
  The claim C3 as first stated fails on a store that holds an email twice, which two
  calls of \<^verbatim>\<open>save_account\<close> with the same email produce: \<^verbatim>\<open>update_account\<close> rewrites
  the first of the two rows only, and two rows for that email remain.
\<close>
theorem update_account_duplicate_counterexample:
  "headed (snd (run_calls [Save ''t0'' alice, Save ''t1'' alice] new_store)) \<and>
   ''alice@outlook.com'' \<in>
     set (emails (load_accounts (snd (run_calls [Save ''t0'' alice, Save ''t1'' alice] new_store)))) \<and>
   rows_of ''alice@outlook.com''
     (load_accounts
        (snd (update_account ''t2'' alice_change
           (snd (run_calls [Save ''t0'' alice, Save ''t1'' alice] new_store))))) =
     [row_dict (Line ''alice@outlook.com'' ''X'' ''Alex'' ''Smith'' ''1990'' ''2'' ''28'' []
        ''2025-01-01 10:00:00'' ''41.5''),
      row_dict (Line ''alice@outlook.com'' ''pw1'' ''Alex'' ''Smith'' ''1990'' ''2'' ''28'' []
        ''2025-01-01 10:00:00'' ''41.5'')]"
proof -
  let ?st2 = "\<lparr>accounts_file = Some [header, line_of alice, line_of alice], totp_file = Json []\<rparr>"
  have st2: "snd (run_calls [Save ''t0'' alice, Save ''t1'' alice] new_store) = ?st2"
    by (simp only: save_alice_twice snd_conv)
  have upd: "accounts_file (snd (update_account ''t2'' alice_change ?st2)) =
      Some [header,
        Line ''alice@outlook.com'' ''X'' ''Alex'' ''Smith'' ''1990'' ''2'' ''28'' []
          ''2025-01-01 10:00:00'' ''41.5'',
        line_of alice]"
    using update_account_headed
      [of ?st2 "[line_of alice, line_of alice]" alice_change "''alice@outlook.com''" "''X''" "''t2''"]
    by (simp add: getitem_alice_change line_of_alice)
  have "load_accounts ?st2 = map row_dict [line_of alice, line_of alice]"
    by (rule load_accounts_headed) simp
  moreover have "load_accounts (snd (update_account ''t2'' alice_change ?st2)) =
      map row_dict [Line ''alice@outlook.com'' ''X'' ''Alex'' ''Smith'' ''1990'' ''2'' ''28'' []
          ''2025-01-01 10:00:00'' ''41.5'', line_of alice]"
    by (rule load_accounts_headed [OF upd])
  ultimately show ?thesis
    unfolding st2
    by (simp add: headed_def emails_def rows_of_def dict_get_email_row_dict line_of_alice)
qed

theorem save_update_load_round_trip_witness:
  "headed new_store \<and>
   getitem alice ''email'' = Inr ''alice@outlook.com'' \<and>
   fst (save_account ''t0'' alice new_store) = None \<and>
   load_accounts (snd (save_account ''t0'' alice new_store)) = [row_dict (line_of alice)] \<and>
   headed (snd (save_account ''t0'' alice new_store)) \<and>
   length (rows_of ''alice@outlook.com''
     (load_accounts (snd (save_account ''t0'' alice new_store)))) = 1 \<and>
   (\<exists>d. rows_of ''alice@outlook.com''
          (load_accounts (snd (update_account ''t2'' alice_change
             (snd (save_account ''t0'' alice new_store))))) = [d] \<and>
        dict_get d ''password'' [] = ''X'') \<and>
   load_accounts (snd (update_account ''t4'' alice_change
       (snd (update_account ''t2'' alice_change
          (snd (save_account ''t0'' alice new_store)))))) =
     load_accounts (snd (update_account ''t2'' alice_change
       (snd (save_account ''t0'' alice new_store)))) \<and>
   ''bob@outlook.com'' \<notin>
     set (emails (load_accounts (snd (save_account ''t0'' alice new_store)))) \<and>
   load_accounts (snd (update_account ''t3'' bob_change
       (snd (save_account ''t0'' alice new_store)))) =
     [row_dict (line_of alice),
      [(''email'', ''bob@outlook.com''), (''password'', ''Y''), (''first_name'', []),
       (''last_name'', []), (''birth_year'', []), (''birth_month'', []), (''birth_day'', []),
       (''totp_secret'', ''JBSWY3DPEHPK3PXP''), (''creation_time'', ''2025-02-02 10:00:00''),
       (''elapsed_time'', ''28.0'')]]"
proof -
  let ?st1 = "\<lparr>accounts_file = Some [header, line_of alice], totp_file = Json []\<rparr>"
  have h0: "headed new_store" by (simp add: new_store_eq headed_def)
  have st1: "snd (save_account ''t0'' alice new_store) = ?st1" by (simp add: save_alice)
  have h1: "headed ?st1" by (simp add: headed_def)
  have l1: "load_accounts ?st1 = [row_dict (line_of alice)]"
    using load_accounts_headed [of ?st1 "[line_of alice]"] by simp
  have one: "length (rows_of ''alice@outlook.com'' (load_accounts ?st1)) = 1"
    unfolding l1 by (simp add: rows_of_def dict_get_email_row_dict line_of_alice)
  have nobob: "''bob@outlook.com'' \<notin> set (emails (load_accounts ?st1))"
    unfolding l1 by (simp add: emails_def dict_get_email_row_dict line_of_alice)
  have l0: "load_accounts new_store = []"
    using load_accounts_headed [of new_store "[]"] by (simp add: new_store_eq)
  have "accounts_file (snd (update_account ''t4'' alice_change ?st1)) =
      accounts_file (snd (update_account ''t2'' alice_change ?st1))"
    using update_account_idempotent(2)
      [of ?st1 "[line_of alice]" alice_change "''alice@outlook.com''" "''X''" "''t4''" "''t2''"]
    by (simp add: getitem_alice_change)
  then have same: "load_accounts (snd (update_account ''t4'' alice_change ?st1)) =
      load_accounts (snd (update_account ''t2'' alice_change ?st1))"
    by (simp add: load_accounts_def)
  show ?thesis
    using save_update_load_round_trip
        [OF h0, where r = alice and e = "''alice@outlook.com''" and now = "''t0''"
           and c = alice_change and x = "''X''" and now' = "''t4''"]
      save_update_load_round_trip
        [OF h1, where r = alice and e = "''alice@outlook.com''" and now = "''t2''"
           and c = alice_change and x = "''X''" and now' = "''t4''"]
      save_update_load_round_trip
        [OF h1, where r = alice and e = "''bob@outlook.com''" and now = "''t3''"
           and c = bob_change and x = "''Y''" and now' = "''t4''"]
    unfolding st1
    using h0 h1 one nobob l0 l1
    by (simp add: getitem_alice getitem_alice_change getitem_bob_change same)
qed


subsection \<open>Sequences of calls of the store\<close>

lemma run_calls_snoc:
  "run_calls (cs @ [c]) st =
     (case run_calls cs st of
        (Some e, st') \<Rightarrow> (Some e, st')
      | (None, st') \<Rightarrow> run_call c st')"
  by (induction cs arbitrary: st) (auto split: prod.splits option.splits)

lemma saves_fresh_set:
  "set seen = set seen' \<Longrightarrow> saves_fresh seen cs = saves_fresh seen' cs"
proof (induction cs arbitrary: seen seen')
  case Nil
  then show ?case by simp
next
  case (Cons c cs)
  show ?case
  proof (cases c)
    case (Save now info)
    have "set (dict_get info ''email'' [] # seen) = set (dict_get info ''email'' [] # seen')"
      using Cons.prems by simp
    then show ?thesis
      using Cons.IH [of "dict_get info ''email'' [] # seen" "dict_get info ''email'' [] # seen'"]
        Cons.prems Save
      by simp
  next
    case (Update now info)
    have "set (dict_get info ''email'' [] # seen) = set (dict_get info ''email'' [] # seen')"
      using Cons.prems by simp
    then show ?thesis
      using Cons.IH [of "dict_get info ''email'' [] # seen" "dict_get info ''email'' [] # seen'"]
        Update
      by simp
  qed
qed

lemma saves_fresh_snoc:
  "saves_fresh seen (cs @ [c]) \<longleftrightarrow>
     saves_fresh seen cs \<and>
     (case c of
        Save now info \<Rightarrow> dict_get info ''email'' [] \<notin> set seen \<union> set (map call_email cs)
      | Update now info \<Rightarrow> True)"
proof (induction seen cs rule: saves_fresh.induct)
  case (1 seen)
  then show ?case by (cases c) simp_all
next
  case (2 seen now info cs)
  then show ?case by (cases c) auto
next
  case (3 seen now info cs)
  then show ?case by (cases c) auto
qed

lemma last_of_filter:
  "(case xs of [] \<Rightarrow> None | y # ys \<Rightarrow> Some (f (last (y # ys)))) =
     (if xs = [] then None else Some (f (last xs)))"
  by (cases xs) simp_all

lemma last_password_snoc:
  "last_password e (cs @ [c]) =
     (if call_email c = e then Some (call_password c) else last_password e cs)"
  unfolding last_password_def last_of_filter by simp

lemma last_totp_snoc:
  "last_totp e (cs @ [c]) =
     (if call_email c = e \<and> call_totp c \<noteq> [] then Some (call_totp c) else last_totp e cs)"
  unfolding last_totp_def last_of_filter by simp

lemma save_account_returns:
  "fst (save_account now info st) = None \<Longrightarrow> \<exists>e. getitem info ''email'' = Inr e"
  by (cases "getitem info ''email''") (simp_all add: save_account_def Let_def)

lemma update_account_returns:
  "fst (update_account now info st) = None \<Longrightarrow>
   \<exists>e pw. getitem info ''email'' = Inr e \<and> getitem info ''new_password'' = Inr pw"
  by (cases "getitem info ''email''"; cases "getitem info ''new_password''")
     (auto simp: update_account_def Let_def split: sum.splits prod.splits)

text \<open>What one call does to the rows of each email, on lines with distinct emails.\<close>

lemma filter_append_line:
  "filter (\<lambda>l. line_email l = e) (ls @ [new]) =
     (if line_email new = e then filter (\<lambda>l. line_email l = e) ls @ [new]
      else filter (\<lambda>l. line_email l = e) ls)"
  by simp

lemma filter_email_absent:
  "e \<notin> set (map line_email ls) \<Longrightarrow> filter (\<lambda>l. line_email l = e) ls = []"
  by (auto simp: filter_empty_conv)

lemma filter_email_single:
  assumes "distinct (map line_email ls)" "e \<in> set (map line_email ls)"
  shows "\<exists>l. filter (\<lambda>l. line_email l = e) ls = [l]"
proof -
  have "length (filter (\<lambda>l. line_email l = e) ls) \<le> 1"
    by (rule filter_email_distinct [OF assms(1)])
  moreover have "filter (\<lambda>l. line_email l = e) ls \<noteq> []"
    using assms(2) filter_email_member [of e ls] by blast
  ultimately show ?thesis
    by (cases "filter (\<lambda>l. line_email l = e) ls") auto
qed

lemma distinct_upsert_lines:
  "line_email minimal = e \<Longrightarrow> distinct (map line_email ls) \<Longrightarrow>
   distinct (map line_email (upsert_lines e pw t minimal ls))"
  by (simp add: emails_upsert_lines)

lemma set_emails_upsert_lines:
  "line_email minimal = e \<Longrightarrow>
   set (map line_email (upsert_lines e pw t minimal ls)) = insert e (set (map line_email ls))"
  by (auto simp: emails_upsert_lines)

text \<open>
  The lines below the header after a sequence of calls that returned, none of whose
  \<^verbatim>\<open>save_account\<close> calls wrote an email that was already there.
\<close>

lemma run_calls_lines:
  assumes hdr: "accounts_file st = Some (header # ls)"
    and dist: "distinct (map line_email ls)"
  shows "saves_fresh (map line_email ls) cs \<Longrightarrow> fst (run_calls cs st) = None \<Longrightarrow>
    \<exists>ls'. accounts_file (snd (run_calls cs st)) = Some (header # ls') \<and>
      distinct (map line_email ls') \<and>
      set (map line_email ls') = set (map line_email ls) \<union> set (map call_email cs) \<and>
      (\<forall>e p. last_password e cs = Some p \<longrightarrow>
         (\<exists>l. filter (\<lambda>l. line_email l = e) ls' = [l] \<and> line_password l = p)) \<and>
      (\<forall>e t. last_totp e cs = Some t \<longrightarrow>
         (\<exists>l. filter (\<lambda>l. line_email l = e) ls' = [l] \<and> line_totp l = t))"
proof (induction cs rule: rev_induct)
  case Nil
  show ?case using hdr dist by (simp add: last_password_def last_totp_def)
next
  case (snoc c cs)
  have fresh_cs: "saves_fresh (map line_email ls) cs"
    using snoc.prems(1) by (simp add: saves_fresh_snoc)
  have ok_cs: "fst (run_calls cs st) = None"
    using snoc.prems(2) by (auto simp: run_calls_snoc split: prod.splits option.splits)
  obtain st1 where st1: "run_calls cs st = (None, st1)"
    using ok_cs by (cases "run_calls cs st") auto
  from snoc.IH [OF fresh_cs ok_cs] obtain ls1 where
    f1: "accounts_file st1 = Some (header # ls1)" and
    d1: "distinct (map line_email ls1)" and
    s1: "set (map line_email ls1) = set (map line_email ls) \<union> set (map call_email cs)" and
    p1: "\<forall>e p. last_password e cs = Some p \<longrightarrow>
           (\<exists>l. filter (\<lambda>l. line_email l = e) ls1 = [l] \<and> line_password l = p)" and
    t1: "\<forall>e t. last_totp e cs = Some t \<longrightarrow>
           (\<exists>l. filter (\<lambda>l. line_email l = e) ls1 = [l] \<and> line_totp l = t)"
    unfolding st1 snd_conv by blast
  have step: "run_calls (cs @ [c]) st = run_call c st1"
    by (simp add: run_calls_snoc st1)
  have ok_c: "fst (run_call c st1) = None"
    using snoc.prems(2) step by simp
  show ?case
  proof (cases c)
    case (Save now info)
    obtain e where e: "getitem info ''email'' = Inr e"
      using ok_c Save save_account_returns [of now info st1] by auto
    have ge: "dict_get info ''email'' [] = e"
      by (rule getitem_dict_get [OF e])
    have ce: "call_email c = e" using Save ge by simp
    have fresh: "e \<notin> set (map line_email ls1)"
      using snoc.prems(1) Save s1 ge by (simp add: saves_fresh_snoc)
    let ?ls2 = "ls1 @ [line_of info]"
    have f2: "accounts_file (snd (run_calls (cs @ [c]) st)) = Some (header # ?ls2)"
      unfolding step using save_account_headed [OF f1 e, of now] Save by simp
    have le: "line_email (line_of info) = e" using ge by simp
    have d2: "distinct (map line_email ?ls2)" using d1 fresh le by simp
    have s2: "set (map line_email ?ls2) =
        set (map line_email ls) \<union> set (map call_email (cs @ [c]))"
      using s1 le ce by auto
    have none: "filter (\<lambda>l. line_email l = e) ls1 = []"
      by (rule filter_email_absent [OF fresh])
    have p2: "\<exists>l. filter (\<lambda>l. line_email l = e') ?ls2 = [l] \<and> line_password l = p"
      if lp: "last_password e' (cs @ [c]) = Some p" for e' p
    proof (cases "e' = e")
      case True
      then have "p = call_password c" using lp ce by (simp add: last_password_snoc)
      then show ?thesis using True none le Save by simp
    next
      case False
      then have "last_password e' cs = Some p" using lp ce by (simp add: last_password_snoc)
      then obtain l where "filter (\<lambda>l. line_email l = e') ls1 = [l]" "line_password l = p"
        using p1 by blast
      then show ?thesis using False le by simp
    qed
    have t2: "\<exists>l. filter (\<lambda>l. line_email l = e') ?ls2 = [l] \<and> line_totp l = t"
      if lt: "last_totp e' (cs @ [c]) = Some t" for e' t
    proof (cases "e' = e")
      case True
      show ?thesis
      proof (cases "call_totp c = []")
        case empty: True
        then have "last_totp e cs = Some t" using lt True by (simp add: last_totp_snoc)
        then obtain l where "filter (\<lambda>l. line_email l = e) ls1 = [l]"
          using t1 by blast
        then show ?thesis using none by simp
      next
        case False
        then have "t = call_totp c" using lt True ce by (simp add: last_totp_snoc)
        then show ?thesis using True none le Save by simp
      qed
    next
      case False
      then have "last_totp e' cs = Some t" using lt ce by (simp add: last_totp_snoc)
      then obtain l where "filter (\<lambda>l. line_email l = e') ls1 = [l]" "line_totp l = t"
        using t1 by blast
      then show ?thesis using False le by simp
    qed
    show ?thesis using f2 d2 s2 p2 t2 by blast
  next
    case (Update now info)
    obtain e pw where e: "getitem info ''email'' = Inr e"
      and pw: "getitem info ''new_password'' = Inr pw"
      using ok_c Update update_account_returns [of now info st1] by auto
    have ge: "dict_get info ''email'' [] = e"
      by (rule getitem_dict_get [OF e])
    have gp: "dict_get info ''new_password'' [] = pw"
      by (rule getitem_dict_get [OF pw])
    have ce: "call_email c = e" using Update ge by simp
    have cp: "call_password c = pw" using Update gp by simp
    let ?t = "dict_get info ''totp_secret'' []"
    have ct: "call_totp c = ?t" using Update by simp
    let ?minimal = "Line e pw [] [] [] [] [] ?t
        (dict_get info ''update_time'' []) (dict_get info ''elapsed_time'' [])"
    let ?ls2 = "upsert_lines e pw ?t ?minimal ls1"
    have f2: "accounts_file (snd (run_calls (cs @ [c]) st)) = Some (header # ?ls2)"
      unfolding step using update_account_headed [OF f1 e pw, of now] Update by simp
    have me: "line_email ?minimal = e" by simp
    have d2: "distinct (map line_email ?ls2)"
      by (rule distinct_upsert_lines [OF me d1])
    have s2: "set (map line_email ?ls2) =
        set (map line_email ls) \<union> set (map call_email (cs @ [c]))"
      using set_emails_upsert_lines [OF me, of pw ?t ls1] s1 ce by auto
    have other: "filter (\<lambda>l. line_email l = e') ?ls2 = filter (\<lambda>l. line_email l = e') ls1"
      if "e' \<noteq> e" for e'
      by (rule filter_upsert_lines_other [OF me that])
    have same: "filter (\<lambda>l. line_email l = e) ?ls2 =
        (case filter (\<lambda>l. line_email l = e) ls1 of
           [] \<Rightarrow> [?minimal]
         | l # rest \<Rightarrow> set_credentials pw ?t l # rest)"
      by (rule filter_upsert_lines_same [OF me])
    have le1: "length (filter (\<lambda>l. line_email l = e) ls1) \<le> 1"
      by (rule filter_email_distinct [OF d1])
    have row: "\<exists>l. filter (\<lambda>l. line_email l = e) ?ls2 = [l] \<and> line_password l = pw \<and>
        (?t \<noteq> [] \<longrightarrow> line_totp l = ?t) \<and>
        (\<forall>l0. ?t = [] \<and> filter (\<lambda>l. line_email l = e) ls1 = [l0] \<longrightarrow> line_totp l = line_totp l0)"
    proof (cases "filter (\<lambda>l. line_email l = e) ls1")
      case Nil
      then show ?thesis using same by simp
    next
      case (Cons l rest)
      then have "rest = []" using le1 by simp
      then show ?thesis using same Cons by simp
    qed
    have p2: "\<exists>l. filter (\<lambda>l. line_email l = e') ?ls2 = [l] \<and> line_password l = p"
      if lp: "last_password e' (cs @ [c]) = Some p" for e' p
    proof (cases "e' = e")
      case True
      then have "p = pw" using lp ce cp by (simp add: last_password_snoc)
      then show ?thesis using True row by blast
    next
      case False
      then have "last_password e' cs = Some p" using lp ce by (simp add: last_password_snoc)
      then show ?thesis using p1 other [OF False] by simp
    qed
    have t2: "\<exists>l. filter (\<lambda>l. line_email l = e') ?ls2 = [l] \<and> line_totp l = t"
      if lt: "last_totp e' (cs @ [c]) = Some t" for e' t
    proof (cases "e' = e")
      case True
      show ?thesis
      proof (cases "?t = []")
        case empty: True
        then have "last_totp e cs = Some t" using lt True ct by (simp add: last_totp_snoc)
        then obtain l0 where "filter (\<lambda>l. line_email l = e) ls1 = [l0]" "line_totp l0 = t"
          using t1 by blast
        then show ?thesis using True row empty by blast
      next
        case False
        then have "t = ?t" using lt True ce ct by (simp add: last_totp_snoc)
        then show ?thesis using True row False by blast
      qed
    next
      case False
      then have "last_totp e' cs = Some t" using lt ce by (simp add: last_totp_snoc)
      then show ?thesis using t1 other [OF False] by simp
    qed
    show ?thesis using f2 d2 s2 p2 t2 by blast
  qed
qed

text \<open>
  Claim C1, as amended. Take a store whose account file carries the header line and
  whose rows have distinct emails, and a sequence of \<^verbatim>\<open>save_account\<close> and
  \<^verbatim>\<open>update_account\<close> calls that all return and in which no \<^verbatim>\<open>save_account\<close> writes an
  email that is already there. After the sequence the rows still have distinct emails,
  the emails are those of before and those written, and for every email the sequence
  wrote there is exactly one row: it carries the most recent password written for that
  email, and the most recent secret that was not empty when there was one.
\<close>
theorem save_update_sequence_invariant:
  assumes "headed st"
    and "distinct (emails (load_accounts st))"
    and "saves_fresh (emails (load_accounts st)) cs"
    and "fst (run_calls cs st) = None"
  shows "headed (snd (run_calls cs st)) \<and>
    distinct (emails (load_accounts (snd (run_calls cs st)))) \<and>
    set (emails (load_accounts (snd (run_calls cs st)))) =
      set (emails (load_accounts st)) \<union> set (map call_email cs) \<and>
    (\<forall>e p. last_password e cs = Some p \<longrightarrow>
       (\<exists>d. rows_of e (load_accounts (snd (run_calls cs st))) = [d] \<and>
            dict_get d ''password'' [] = p)) \<and>
    (\<forall>e t. last_totp e cs = Some t \<longrightarrow>
       (\<exists>d. rows_of e (load_accounts (snd (run_calls cs st))) = [d] \<and>
            dict_get d ''totp_secret'' [] = t))"
proof -
  obtain ls where hdr: "accounts_file st = Some (header # ls)"
    using assms(1) by (auto simp: headed_iff)
  have load: "load_accounts st = map row_dict ls"
    by (rule load_accounts_headed [OF hdr])
  have dist: "distinct (map line_email ls)"
    using assms(2) by (simp add: load emails_row_dict)
  have fresh: "saves_fresh (map line_email ls) cs"
    using assms(3) by (simp add: load emails_row_dict)
  from run_calls_lines [OF hdr dist fresh assms(4)] obtain ls' where
    f: "accounts_file (snd (run_calls cs st)) = Some (header # ls')" and
    d: "distinct (map line_email ls')" and
    s: "set (map line_email ls') = set (map line_email ls) \<union> set (map call_email cs)" and
    p: "\<forall>e p. last_password e cs = Some p \<longrightarrow>
           (\<exists>l. filter (\<lambda>l. line_email l = e) ls' = [l] \<and> line_password l = p)" and
    t: "\<forall>e t. last_totp e cs = Some t \<longrightarrow>
           (\<exists>l. filter (\<lambda>l. line_email l = e) ls' = [l] \<and> line_totp l = t)"
    by blast
  have load': "load_accounts (snd (run_calls cs st)) = map row_dict ls'"
    by (rule load_accounts_headed [OF f])
  have h: "headed (snd (run_calls cs st))"
    using f by (auto simp: headed_iff)
  have d': "distinct (emails (load_accounts (snd (run_calls cs st))))"
    using d by (simp add: load' emails_row_dict)
  have s': "set (emails (load_accounts (snd (run_calls cs st)))) =
      set (emails (load_accounts st)) \<union> set (map call_email cs)"
    using s by (simp add: load load' emails_row_dict)
  have p': "\<exists>d. rows_of e (load_accounts (snd (run_calls cs st))) = [d] \<and>
            dict_get d ''password'' [] = pw"
    if lp: "last_password e cs = Some pw" for e pw
  proof -
    obtain l where "filter (\<lambda>l. line_email l = e) ls' = [l]" "line_password l = pw"
      using p lp by blast
    then show ?thesis
      by (simp add: load' rows_of_row_dict dict_get_password_row_dict)
  qed
  have t': "\<exists>d. rows_of e (load_accounts (snd (run_calls cs st))) = [d] \<and>
            dict_get d ''totp_secret'' [] = tt"
    if lt: "last_totp e cs = Some tt" for e tt
  proof -
    obtain l where "filter (\<lambda>l. line_email l = e) ls' = [l]" "line_totp l = tt"
      using t lt by blast
    then show ?thesis
      by (simp add: load' rows_of_row_dict dict_get_totp_row_dict)
  qed
  show ?thesis using h d' s' p' t' by blast
qed

lemma three_calls:
  "run_calls [Save ''t0'' alice, Update ''t1'' bob_change, Update ''t2'' alice_change] new_store =
     (None,
      \<lparr>accounts_file =
         Some [header,
           Line ''alice@outlook.com'' ''X'' ''Alex'' ''Smith'' ''1990'' ''2'' ''28'' []
             ''2025-01-01 10:00:00'' ''41.5'',
           Line ''bob@outlook.com'' ''Y'' [] [] [] [] [] ''JBSWY3DPEHPK3PXP''
             ''2025-02-02 10:00:00'' ''28.0''],
       totp_file =
         Json [\<lparr>entry_email = ''bob@outlook.com'', entry_secret = ''JBSWY3DPEHPK3PXP'',
                entry_time = ''2025-02-02 10:00:00''\<rparr>]\<rparr>)"
proof -
  let ?st1 = "\<lparr>accounts_file = Some [header, line_of alice], totp_file = Json []\<rparr>"
  let ?bob = "Line ''bob@outlook.com'' ''Y'' [] [] [] [] [] ''JBSWY3DPEHPK3PXP''
             ''2025-02-02 10:00:00'' ''28.0''"
  let ?st2 = "\<lparr>accounts_file = Some [header, line_of alice, ?bob],
       totp_file =
         Json [\<lparr>entry_email = ''bob@outlook.com'', entry_secret = ''JBSWY3DPEHPK3PXP'',
                entry_time = ''2025-02-02 10:00:00''\<rparr>]\<rparr>"
  have a: "save_account ''t0'' alice new_store = (None, ?st1)"
    by (rule save_alice)
  have b: "update_account ''t1'' bob_change ?st1 = (None, ?st2)"
    using update_account_headed
      [of ?st1 "[line_of alice]" bob_change "''bob@outlook.com''" "''Y''" "''t1''"]
    by (simp add: getitem_bob_change line_of_alice)
  have c: "update_account ''t2'' alice_change ?st2 =
     (None,
      \<lparr>accounts_file =
         Some [header,
           Line ''alice@outlook.com'' ''X'' ''Alex'' ''Smith'' ''1990'' ''2'' ''28'' []
             ''2025-01-01 10:00:00'' ''41.5'', ?bob],
       totp_file =
         Json [\<lparr>entry_email = ''bob@outlook.com'', entry_secret = ''JBSWY3DPEHPK3PXP'',
                entry_time = ''2025-02-02 10:00:00''\<rparr>]\<rparr>)"
    using update_account_headed
      [of ?st2 "[line_of alice, ?bob]" alice_change "''alice@outlook.com''" "''X''" "''t2''"]
    by (simp add: getitem_alice_change line_of_alice)
  show ?thesis by (simp add: a b c)
qed

theorem save_update_sequence_invariant_witness:
  "headed new_store \<and>
   distinct (emails (load_accounts new_store)) \<and>
   saves_fresh (emails (load_accounts new_store))
     [Save ''t0'' alice, Update ''t1'' bob_change, Update ''t2'' alice_change] \<and>
   fst (run_calls [Save ''t0'' alice, Update ''t1'' bob_change, Update ''t2'' alice_change]
          new_store) = None \<and>
   last_password ''alice@outlook.com''
     [Save ''t0'' alice, Update ''t1'' bob_change, Update ''t2'' alice_change] = Some ''X'' \<and>
   last_totp ''bob@outlook.com''
     [Save ''t0'' alice, Update ''t1'' bob_change, Update ''t2'' alice_change] =
     Some ''JBSWY3DPEHPK3PXP'' \<and>
   distinct (emails (load_accounts (snd (run_calls
     [Save ''t0'' alice, Update ''t1'' bob_change, Update ''t2'' alice_change] new_store)))) \<and>
   (\<exists>d. rows_of ''alice@outlook.com'' (load_accounts (snd (run_calls
           [Save ''t0'' alice, Update ''t1'' bob_change, Update ''t2'' alice_change]
           new_store))) = [d] \<and>
        dict_get d ''password'' [] = ''X'') \<and>
   (\<exists>d. rows_of ''bob@outlook.com'' (load_accounts (snd (run_calls
           [Save ''t0'' alice, Update ''t1'' bob_change, Update ''t2'' alice_change]
           new_store))) = [d] \<and>
        dict_get d ''totp_secret'' [] = ''JBSWY3DPEHPK3PXP'')"
proof -
  let ?cs = "[Save ''t0'' alice, Update ''t1'' bob_change, Update ''t2'' alice_change]"
  have h: "headed new_store" by (simp add: new_store_eq headed_def)
  have l0: "load_accounts new_store = []"
    using load_accounts_headed [of new_store "[]"] by (simp add: new_store_eq)
  have d: "distinct (emails (load_accounts new_store))"
    by (simp add: l0 emails_def)
  have f: "saves_fresh (emails (load_accounts new_store)) ?cs"
    unfolding l0
    by (simp add: emails_def getitem_dict_get [OF getitem_alice])
  have r: "fst (run_calls ?cs new_store) = None"
    by (simp only: three_calls fst_conv)
  have lp: "last_password ''alice@outlook.com'' ?cs = Some ''X''"
    by (simp add: last_password_def dict_get_def alice_def bob_change_def alice_change_def)
  have lt: "last_totp ''bob@outlook.com'' ?cs = Some ''JBSWY3DPEHPK3PXP''"
    by (simp add: last_totp_def dict_get_def alice_def bob_change_def alice_change_def)
  show ?thesis
    using save_update_sequence_invariant [OF h d f r] h d f r lp lt by blast
qed

text \<open>
  The claim C1 as first stated fails for two calls of \<^verbatim>\<open>save_account\<close> with the same
  email on a new store: both return and the collection holds two rows for the email.
\<close>
theorem save_account_duplicate_counterexample:
  "headed new_store \<and>
   fst (run_calls [Save ''t0'' alice, Save ''t1'' alice] new_store) = None \<and>
   emails (load_accounts (snd (run_calls [Save ''t0'' alice, Save ''t1'' alice] new_store))) =
     [''alice@outlook.com'', ''alice@outlook.com''] \<and>
   length (rows_of ''alice@outlook.com''
     (load_accounts (snd (run_calls [Save ''t0'' alice, Save ''t1'' alice] new_store)))) = 2"
proof -
  let ?st2 = "\<lparr>accounts_file = Some [header, line_of alice, line_of alice], totp_file = Json []\<rparr>"
  have r: "run_calls [Save ''t0'' alice, Save ''t1'' alice] new_store = (None, ?st2)"
    by (rule save_alice_twice)
  have l: "load_accounts ?st2 = map row_dict [line_of alice, line_of alice]"
    by (rule load_accounts_headed) simp
  have h: "headed new_store" by (simp add: new_store_eq headed_def)
  show ?thesis
    unfolding r fst_conv snd_conv l
    using h by (simp add: emails_def rows_of_def dict_get_email_row_dict line_of_alice)
qed

subsection \<open>Properties of the create-account job and of the worker\<close>

lemma create_outlook_account_success:
  assumes "signup_steps env = None"
  shows "\<exists>em pw fn ln y m d.
    create_outlook_account env =
      [(''email'', em @ ''@outlook.com''), (''password'', pw), (''first_name'', fn),
       (''last_name'', ln), (''birth_year'', y), (''birth_month'', m), (''birth_day'', d),
       (''totp_secret'', bind_totp env), (''creation_time'', clock env),
       (''elapsed_time'', elapsed env)]"
  using assms by (simp add: create_outlook_account_def split_def Let_def setitem_def)

lemma create_outlook_account_failure:
  assumes "signup_steps env = Some e"
  shows "\<exists>em pw fn ln y m d.
    create_outlook_account env =
      [(''email'', em @ ''@outlook.com''), (''password'', pw), (''first_name'', fn),
       (''last_name'', ln), (''birth_year'', y), (''birth_month'', m), (''birth_day'', d),
       (''totp_secret'', []), (''creation_time'', clock env),
       (''error'', e), (''elapsed_time'', elapsed env)]"
  using assms by (simp add: create_outlook_account_def split_def Let_def setitem_def)

lemma create_outlook_account_email:
  "\<exists>em. getitem (create_outlook_account env) ''email'' = Inr em"
proof (cases "signup_steps env")
  case None
  then show ?thesis
    using create_outlook_account_success [of env] by (auto simp: getitem_def)
next
  case (Some e)
  then show ?thesis
    using create_outlook_account_failure [of env e] by (auto simp: getitem_def)
qed

lemma create_outlook_account_error_key:
  "''error'' \<in> set (keys (create_outlook_account env)) \<longleftrightarrow> signup_steps env \<noteq> None"
proof (cases "signup_steps env")
  case None
  then show ?thesis
    using create_outlook_account_success [of env] by (auto simp: keys_def)
next
  case (Some e)
  then show ?thesis
    using create_outlook_account_failure [of env e] by (auto simp: keys_def)
qed

lemma save_account_created_returns:
  "fst (save_account now (create_outlook_account env) st) = None"
  using create_outlook_account_email [of env]
  by (auto simp: save_account_def Let_def)

lemma create_outlook_account_totp_failed:
  assumes "signup_steps env = None" and "totp_steps env = Some e"
  shows "getitem (create_outlook_account env) ''totp_secret'' = Inr []"
    and "dict_get (create_outlook_account env) ''totp_secret'' dflt = []"
  using create_outlook_account_success [OF assms(1)] assms(2)
  by (auto simp: getitem_def dict_get_def bind_totp_def)

lemma save_account_no_secret:
  assumes "dict_get info ''totp_secret'' [] = []"
  shows "totp_file (snd (save_account now info st)) = totp_file st"
  using assms by (simp add: save_account_def Let_def split: sum.splits)

lemma line_totp_line_of: "line_totp (line_of info) = dict_get info ''totp_secret'' []"
  by (simp add: line_of_def)



lemma worker_task_session:
  assumes "fst (get_next_proxy (allocator w)) = Inr proxy" "driver_start env = None"
  shows "worker_task env w =
    w\<lparr>allocator := snd (get_next_proxy (allocator w)),
      started := started w @ [proxy],
      files := (if signup_steps env = None
                then snd (save_account (save_clock env) (create_outlook_account env) (files w))
                else files w),
      result_queue := result_queue w @ create_outlook_account env #
        (case driver_quit env of None \<Rightarrow> [] | Some e \<Rightarrow> [[(''error'', e)]]),
      quit := quit w + 1\<rparr>"
proof -
  obtain st where s:
    "save_account (save_clock env) (create_outlook_account env) (files w) = (None, st)"
    using save_account_created_returns [of "save_clock env" env "files w"]
    by (cases "save_account (save_clock env) (create_outlook_account env) (files w)") auto
  show ?thesis
    using assms create_outlook_account_error_key [of env] s
    by (cases "get_next_proxy (allocator w)"; cases "driver_quit env";
        cases "signup_steps env")
       (simp_all add: worker_task_def task_body_def Let_def)
qed



text \<open>
  Claim C10. When a step of \<^verbatim>\<open>bind_totp\<close> raises, \<^verbatim>\<open>bind_totp\<close> returns the empty
  string; when the signup steps returned, the dictionary \<^verbatim>\<open>create_outlook_account\<close>
  returns then has no key \<^verbatim>\<open>error\<close> and an empty \<^verbatim>\<open>totp_secret\<close>. \<^verbatim>\<open>save_account\<close> of
  that dictionary returns, appends its line (with an empty secret) to the account file
  and leaves the TOTP file as it is; on a file with the header line \<^verbatim>\<open>load_accounts\<close>
  then yields the former rows followed by that row. The worker, once the browser has
  started, saves that dictionary and puts it on the result queue.
\<close>
theorem bind_totp_failure_saved_without_entry:
  assumes "totp_steps env = Some e"
  shows "bind_totp env = [] \<and>
    (signup_steps env = None \<longrightarrow>
       ''error'' \<notin> set (keys (create_outlook_account env)) \<and>
       getitem (create_outlook_account env) ''totp_secret'' = Inr [] \<and>
       fst (save_account now (create_outlook_account env) st) = None \<and>
       accounts_file (snd (save_account now (create_outlook_account env) st)) =
         Some ((case accounts_file st of None \<Rightarrow> [] | Some ls \<Rightarrow> ls) @
               [line_of (create_outlook_account env)]) \<and>
       line_totp (line_of (create_outlook_account env)) = [] \<and>
       totp_file (snd (save_account now (create_outlook_account env) st)) = totp_file st \<and>
       (headed st \<longrightarrow>
          load_accounts (snd (save_account now (create_outlook_account env) st)) =
            load_accounts st @ [row_dict (line_of (create_outlook_account env))]) \<and>
       (fst (get_next_proxy (allocator w)) = Inr proxy \<and> driver_start env = None \<longrightarrow>
          take (Suc (length (result_queue w))) (result_queue (worker_task env w)) =
            result_queue w @ [create_outlook_account env] \<and>
          files (worker_task env w) =
            snd (save_account (save_clock env) (create_outlook_account env) (files w))))"
proof -
  let ?info = "create_outlook_account env"
  have b: "bind_totp env = []"
    using assms by (simp add: bind_totp_def)
  have rest:
    "''error'' \<notin> set (keys ?info) \<and>
     getitem ?info ''totp_secret'' = Inr [] \<and>
     fst (save_account now ?info st) = None \<and>
     accounts_file (snd (save_account now ?info st)) =
       Some ((case accounts_file st of None \<Rightarrow> [] | Some ls \<Rightarrow> ls) @ [line_of ?info]) \<and>
     line_totp (line_of ?info) = [] \<and>
     totp_file (snd (save_account now ?info st)) = totp_file st \<and>
     (headed st \<longrightarrow>
        load_accounts (snd (save_account now ?info st)) =
          load_accounts st @ [row_dict (line_of ?info)]) \<and>
     (fst (get_next_proxy (allocator w)) = Inr proxy \<and> driver_start env = None \<longrightarrow>
        take (Suc (length (result_queue w))) (result_queue (worker_task env w)) =
          result_queue w @ [?info] \<and>
        files (worker_task env w) = snd (save_account (save_clock env) ?info (files w)))"
    if s: "signup_steps env = None"
  proof -
    have k: "''error'' \<notin> set (keys ?info)"
      using s by (simp add: create_outlook_account_error_key)
    have g: "getitem ?info ''totp_secret'' = Inr []"
      and d: "dict_get ?info ''totp_secret'' [] = []"
      using create_outlook_account_totp_failed [OF s assms] by simp_all
    have r: "fst (save_account now ?info st) = None"
      by (rule save_account_created_returns)
    have a: "accounts_file (snd (save_account now ?info st)) =
        Some ((case accounts_file st of None \<Rightarrow> [] | Some ls \<Rightarrow> ls) @ [line_of ?info])"
      by (rule save_account_lines)
    have l: "line_totp (line_of ?info) = []"
      using d by (simp add: line_totp_line_of)
    have t: "totp_file (snd (save_account now ?info st)) = totp_file st"
      using d by (rule save_account_no_secret)
    have h: "load_accounts (snd (save_account now ?info st)) =
        load_accounts st @ [row_dict (line_of ?info)]" if hd: "headed st"
    proof -
      obtain ls where ls: "accounts_file st = Some (header # ls)"
        using hd headed_iff by blast
      have "accounts_file (snd (save_account now ?info st)) =
          Some (header # (ls @ [line_of ?info]))"
        using a ls by simp
      then have "load_accounts (snd (save_account now ?info st)) =
          map row_dict (ls @ [line_of ?info])"
        by (rule load_accounts_headed)
      moreover have "load_accounts st = map row_dict ls"
        using ls by (rule load_accounts_headed)
      ultimately show ?thesis by simp
    qed
    have w: "take (Suc (length (result_queue w))) (result_queue (worker_task env w)) =
          result_queue w @ [?info] \<and>
        files (worker_task env w) = snd (save_account (save_clock env) ?info (files w))"
      if p: "fst (get_next_proxy (allocator w)) = Inr proxy" "driver_start env = None"
      using worker_task_session [OF p] s by simp
    show ?thesis using k g r a l t h w by blast
  qed
  show ?thesis using b rest by blast
qed

theorem bind_totp_failure_saved_without_entry_witness:
  "bind_totp totp_timeout_env = [] \<and>
   ''error'' \<notin> set (keys (create_outlook_account totp_timeout_env)) \<and>
   getitem (create_outlook_account totp_timeout_env) ''totp_secret'' = Inr [] \<and>
   fst (save_account ''2024-05-01 10:00:12'' (create_outlook_account totp_timeout_env)
          new_store) = None \<and>
   accounts_file (snd (save_account ''2024-05-01 10:00:12''
       (create_outlook_account totp_timeout_env) new_store)) =
     Some [header, line_of (create_outlook_account totp_timeout_env)] \<and>
   line_totp (line_of (create_outlook_account totp_timeout_env)) = [] \<and>
   totp_file (snd (save_account ''2024-05-01 10:00:12''
       (create_outlook_account totp_timeout_env) new_store)) = Json [] \<and>
   load_accounts (snd (save_account ''2024-05-01 10:00:12''
       (create_outlook_account totp_timeout_env) new_store)) =
     [row_dict (line_of (create_outlook_account totp_timeout_env))] \<and>
   result_queue (worker_task totp_timeout_env idle_world) =
     [create_outlook_account totp_timeout_env] \<and>
   files (worker_task totp_timeout_env idle_world) =
     snd (save_account ''2024-05-01 10:00:12'' (create_outlook_account totp_timeout_env)
            new_store)"
proof -
  have e: "signup_steps totp_timeout_env = None" "totp_steps totp_timeout_env = Some ''timeout''"
    "driver_start totp_timeout_env = None" "driver_quit totp_timeout_env = None"
    "save_clock totp_timeout_env = ''2024-05-01 10:00:12''"
    by (simp_all add: totp_timeout_env_def)
  have i: "fst (get_next_proxy (allocator idle_world)) = Inr None"
    "files idle_world = new_store" "result_queue idle_world = []"
    by (simp_all add: idle_world_def get_next_proxy_def ProxyManager_def)
  have h: "headed new_store" "accounts_file new_store = Some [header]"
    "totp_file new_store = Json []" "load_accounts new_store = []"
    by (simp_all add: new_store_eq headed_def load_accounts_def)
  have q: "result_queue (worker_task totp_timeout_env idle_world) =
      [create_outlook_account totp_timeout_env]"
    using worker_task_session [of idle_world None totp_timeout_env] by (simp add: e i)
  show ?thesis
    using bind_totp_failure_saved_without_entry
      [where env = totp_timeout_env and e = "''timeout''" and st = new_store
         and now = "''2024-05-01 10:00:12''" and w = idle_world and proxy = None,
       OF e(2)]
    by (simp add: e i h q)
qed

text \<open>
  When \<^verbatim>\<open>driver.quit()\<close> raises in the \<^verbatim>\<open>finally\<close> clause, the dictionary of the job is
  already on the result queue and the handler of the worker puts a second one.
\<close>
lemma worker_task_quit_raises:
  assumes "fst (get_next_proxy (allocator w)) = Inr proxy" "driver_start env = None"
    and "driver_quit env = Some e"
  shows "result_queue (worker_task env w) =
    result_queue w @ [create_outlook_account env, [(''error'', e)]]"
  using worker_task_session [OF assms(1,2)] assms(3) by simp







end
